theory Spec2Isabelle
  imports Complex_Main
begin

section \<open>The message-send pipeline of the chat client\<close>

text \<open>
  The development embeds \<^verbatim>\<open>sendMessage\<close> (src/api/openai.js), \<^verbatim>\<open>addMessage\<close>
  (src/context/ChatContext.js) and \<^verbatim>\<open>handleSend\<close> (src/components/Chat.js) of
  src/src/App.js. Time is a natural number of milliseconds. JavaScript runs each
  callback to completion, so every function below is one such uninterrupted segment,
  or a composition of segments with the passage of time between them made explicit.
  Console output is not part of the modelled state.
\<close>

subsection \<open>JavaScript values and property access\<close>

text \<open>
  The values that a parsed response body can hold, and \<^verbatim>\<open>undefined\<close>. Strings are
  lists of code units below 256; a number is kept as the rational its decimal literal
  denotes (no arithmetic is ever done on one).
\<close>

datatype js =
    Undefined
  | Null
  | Bool bool
  | Num rat
  | Str string
  | Arr "js list"
  | Obj "(string \<times> js) list"

datatype error =
    BadStatus nat
  | NetworkError
  | TransportTimeout
  | TypeError
  | RequestTimeout

text \<open>
  \<^verbatim>\<open>v.name\<close> for a name that no built-in prototype defines (\<^verbatim>\<open>choices\<close>,
  \<^verbatim>\<open>message\<close>, \<^verbatim>\<open>content\<close>): reading a property of \<^verbatim>\<open>undefined\<close> or \<^verbatim>\<open>null\<close>
  throws a TypeError, a missing property reads as \<^verbatim>\<open>undefined\<close>.
\<close>

fun get_prop :: "string \<Rightarrow> js \<Rightarrow> error + js" where
  "get_prop name Undefined = Inl TypeError"
| "get_prop name Null = Inl TypeError"
| "get_prop name (Obj fs) = Inr (case map_of fs name of None \<Rightarrow> Undefined | Some v \<Rightarrow> v)"
| "get_prop name (Bool b) = Inr Undefined"
| "get_prop name (Num n) = Inr Undefined"
| "get_prop name (Str s) = Inr Undefined"
| "get_prop name (Arr xs) = Inr Undefined"

text \<open>\<^verbatim>\<open>v[0]\<close>: the first element of an array, the first code unit of a string.\<close>

fun index0 :: "js \<Rightarrow> error + js" where
  "index0 Undefined = Inl TypeError"
| "index0 Null = Inl TypeError"
| "index0 (Arr xs) = Inr (case xs of [] \<Rightarrow> Undefined | x # _ \<Rightarrow> x)"
| "index0 (Str s) = Inr (case s of [] \<Rightarrow> Undefined | c # _ \<Rightarrow> Str [c])"
| "index0 (Obj fs) = Inr (case map_of fs ''0'' of None \<Rightarrow> Undefined | Some v \<Rightarrow> v)"
| "index0 (Bool b) = Inr Undefined"
| "index0 (Num n) = Inr Undefined"

text \<open>Line 72: \<^verbatim>\<open>response.data.choices[0].message.content\<close>, applied to \<^verbatim>\<open>response.data\<close>.\<close>

definition completion_text :: "js \<Rightarrow> error + js" where
  "completion_text data =
     (case get_prop ''choices'' data of
        Inl e \<Rightarrow> Inl e
      | Inr choices \<Rightarrow>
          (case index0 choices of
             Inl e \<Rightarrow> Inl e
           | Inr choice \<Rightarrow>
               (case get_prop ''message'' choice of
                  Inl e \<Rightarrow> Inl e
                | Inr msg \<Rightarrow> get_prop ''content'' msg)))"

subsection \<open>The transport and the program state\<close>

text \<open>
  What \<^verbatim>\<open>api.post\<close> settles with: a rejection (axios rejects on a status outside 2xx,
  on a transport error and on its own 10 second timeout), or a response, of which only
  \<^verbatim>\<open>response.data\<close> is read. The environment chooses the delay after which the call
  settles, or that it never does: whether the transport keeps to the timeout of 10
  seconds that line 44 configures is not assumed.
\<close>

datatype transport_result = Rejected error | Fulfilled js

datatype net = Settles nat transport_result | Never

record request =
  verb :: string
  path :: string
  body :: js

record message =
  content :: js
  isUser :: bool
  timestamp :: nat

text \<open>
  \<open>messageCache\<close> is the module-level Map; \<open>timers\<close> are the pending
  \<^verbatim>\<open>setTimeout\<close> callbacks of line 76 (due time and key, in creation order);
  \<open>abandoned\<close> are the calls of \<^verbatim>\<open>sendMessage\<close> still awaiting \<^verbatim>\<open>api.post\<close> after
  their caller stopped waiting (arrival time, key and what the transport settles with);
  \<open>requests\<close> logs the outbound requests; \<open>messages\<close> and \<open>isLoading\<close> are the
  state of ChatProvider.
\<close>

record state =
  messageCache :: "string \<rightharpoonup> js"
  timers :: "(nat \<times> string) list"
  abandoned :: "(nat \<times> string \<times> transport_result) list"
  clock :: nat
  requests :: "request list"
  messages :: "message list"
  isLoading :: bool

definition init :: state where
  "init = \<lparr>messageCache = Map.empty, timers = [], abandoned = [], clock = 0,
            requests = [], messages = [], isLoading = False\<rparr>"

text \<open>Line 76: \<^verbatim>\<open>5 * 60 * 1000\<close>; line 139: \<^verbatim>\<open>15000\<close>.\<close>

definition ttl :: nat where
  "ttl = 5 * 60 * 1000"

definition race_timeout :: nat where
  "race_timeout = 15000"

subsection \<open>sendMessage\<close>

text \<open>Line 53: the template literal \<^verbatim>\<open>`${systemPrompt}:${message}`\<close>.\<close>

definition cacheKey :: "string \<Rightarrow> string \<Rightarrow> string" where
  "cacheKey systemPrompt msg = systemPrompt @ '':'' @ msg"

text \<open>Lines 60 to 70: the request handed to \<^verbatim>\<open>api.post\<close>.\<close>

definition chat_request :: "string \<Rightarrow> string \<Rightarrow> request" where
  "chat_request systemPrompt msg =
     \<lparr>verb = ''POST'', path = ''/chat/completions'',
      body = Obj [(''model'', Str ''gpt-3.5-turbo''),
                  (''messages'', Arr [Obj [(''role'', Str ''system''), (''content'', Str systemPrompt)],
                                      Obj [(''role'', Str ''user''), (''content'', Str msg)]]),
                  (''temperature'', Num (7 / 10)),
                  (''max_tokens'', Num 500)]\<rparr>"

datatype lookup = Hit js | Miss string

text \<open>
  Lines 51 to 62, up to the \<^verbatim>\<open>await\<close>: the cache check, and on a miss the call of
  \<^verbatim>\<open>api.post\<close>.
\<close>

definition sendMessage_begin :: "string \<Rightarrow> string \<Rightarrow> state \<Rightarrow> lookup \<times> state" where
  "sendMessage_begin msg systemPrompt st =
     (let key = cacheKey systemPrompt msg in
      case messageCache st key of
        Some v \<Rightarrow> (Hit v, st)
      | None \<Rightarrow> (Miss key, st\<lparr>requests := requests st @ [chat_request systemPrompt msg]\<rparr>))"

text \<open>
  Lines 72 to 82, after the \<^verbatim>\<open>await\<close>: a rejection of \<^verbatim>\<open>api.post\<close> and a TypeError
  of line 72 reach the \<^verbatim>\<open>catch\<close>, which throws the error again; otherwise the result
  is cached, its removal scheduled, and the result returned.
\<close>

definition sendMessage_finish :: "string \<Rightarrow> transport_result \<Rightarrow> state \<Rightarrow> (error + js) \<times> state" where
  "sendMessage_finish key outcome st =
     (case outcome of
        Rejected e \<Rightarrow> (Inl e, st)
      | Fulfilled data \<Rightarrow>
          (case completion_text data of
             Inl e \<Rightarrow> (Inl e, st)
           | Inr result \<Rightarrow>
               (Inr result,
                st\<lparr>messageCache := (messageCache st)(key \<mapsto> result),
                   timers := timers st @ [(clock st + ttl, key)]\<rparr>)))"

subsection \<open>The passage of time\<close>

text \<open>
  The callbacks \<^verbatim>\<open>() => messageCache.delete(cacheKey)\<close> that are due at time \<open>t\<close>
  run, in the order of their creation (all delays are equal, so this is the order in
  which they are due). Timers fire at their due time, and before a response that
  arrives at the same time.
\<close>

fun evict :: "nat \<Rightarrow> (nat \<times> string) list \<Rightarrow> (string \<rightharpoonup> js) \<Rightarrow> (string \<rightharpoonup> js)" where
  "evict t [] c = c"
| "evict t ((d, k) # ts) c = evict t ts (if d \<le> t then c(k := None) else c)"

definition tick :: "nat \<Rightarrow> state \<Rightarrow> state" where
  "tick t st =
     st\<lparr>messageCache := evict t (timers st) (messageCache st),
        timers := filter (\<lambda>(d, k). t < d) (timers st),
        clock := max (clock st) t\<rparr>"

text \<open>An abandoned call resumes when its response arrives; nobody reads its result.\<close>

definition deliver :: "state \<Rightarrow> nat \<times> string \<times> transport_result \<Rightarrow> state" where
  "deliver st x = (case x of (a, key, outcome) \<Rightarrow> snd (sendMessage_finish key outcome (tick a st)))"

text \<open>
  The clock moves to \<open>t\<close>: the abandoned calls that settle by then resume in the order
  of their arrival, the timers due by then fire.
\<close>

definition advance :: "nat \<Rightarrow> state \<Rightarrow> state" where
  "advance t st =
     tick t (foldl deliver
               (st\<lparr>abandoned := filter (\<lambda>(a, k, outcome). t < a) (abandoned st)\<rparr>)
               (sort_key fst (filter (\<lambda>(a, k, outcome). a \<le> t) (abandoned st))))"

text \<open>
  \<^verbatim>\<open>await sendMessage(message, systemPrompt)\<close> as its caller sees it: \<open>None\<close> when the
  promise never settles.
\<close>

definition sendMessage :: "string \<Rightarrow> string \<Rightarrow> net \<Rightarrow> state \<Rightarrow> (error + js) option \<times> state" where
  "sendMessage msg systemPrompt nw st =
     (case sendMessage_begin msg systemPrompt st of
        (Hit v, st1) \<Rightarrow> (Some (Inr v), st1)
      | (Miss key, st1) \<Rightarrow>
          (case nw of
             Never \<Rightarrow> (None, st1)
           | Settles d outcome \<Rightarrow>
               (case sendMessage_finish key outcome (advance (clock st1 + d) st1) of
                  (r, st2) \<Rightarrow> (Some r, st2))))"

subsection \<open>handleSend\<close>

text \<open>Lines 94 to 96; \<^verbatim>\<open>new Date()\<close> reads the clock.\<close>

definition addMessage :: "js \<Rightarrow> bool \<Rightarrow> state \<Rightarrow> state" where
  "addMessage m u st =
     st\<lparr>messages := messages st @ [\<lparr>content = m, isUser = u, timestamp = clock st\<rparr>]\<rparr>"

definition setIsLoading :: "bool \<Rightarrow> state \<Rightarrow> state" where
  "setIsLoading b st = st\<lparr>isLoading := b\<rparr>"

text \<open>\<^verbatim>\<open>String.prototype.trim\<close>, on code units below 256.\<close>

definition whitespace :: "char \<Rightarrow> bool" where
  "whitespace c = (c \<in> set [CHR 0x09, CHR 0x0A, CHR 0x0B, CHR 0x0C, CHR 0x0D, CHR 0x20, CHR 0xA0])"

definition trim :: "string \<Rightarrow> string" where
  "trim s = rev (dropWhile whitespace (rev (dropWhile whitespace s)))"

definition fallback :: string where
  "fallback = ''Sorry, there was an error processing your request.''"

text \<open>
  Lines 138 to 145: \<^verbatim>\<open>Promise.race\<close> of \<^verbatim>\<open>sendMessage(text)\<close> (the system prompt takes
  its default, the empty string) against a timer of 15 seconds. A cached value settles
  the race at once. When the timer wins (also against a response that arrives at the
  very time the timer is due), the rejection reaches the \<^verbatim>\<open>catch\<close> of
  \<^verbatim>\<open>handleSend\<close> before any other callback runs, and the call of \<^verbatim>\<open>sendMessage\<close>
  stays in flight: it resumes when time next passes.
\<close>

definition awaitRace :: "string \<Rightarrow> net \<Rightarrow> state \<Rightarrow> (error + js) \<times> state" where
  "awaitRace txt nw st =
     (case sendMessage_begin txt [] st of
        (Hit v, st1) \<Rightarrow> (Inr v, st1)
      | (Miss key, st1) \<Rightarrow>
          (case nw of
             Never \<Rightarrow> (Inl RequestTimeout, advance (clock st1 + race_timeout) st1)
           | Settles d outcome \<Rightarrow>
               if d < race_timeout
               then sendMessage_finish key outcome (advance (clock st1 + d) st1)
               else (Inl RequestTimeout,
                     (advance (clock st1 + race_timeout) st1)
                       \<lparr>abandoned := abandoned (advance (clock st1 + race_timeout) st1)
                                       @ [(clock st1 + d, key, outcome)]\<rparr>)))"

text \<open>Lines 130 to 154.\<close>

definition handleSend :: "string \<Rightarrow> net \<Rightarrow> state \<Rightarrow> state" where
  "handleSend txt nw st =
     (if trim txt = [] then st
      else
        (case awaitRace txt nw (setIsLoading True (addMessage (Str txt) True st)) of
           (Inr response, st1) \<Rightarrow> setIsLoading False (addMessage response False st1)
         | (Inl e, st1) \<Rightarrow> setIsLoading False (addMessage (Str fallback) False st1)))"

subsection \<open>What one key sees\<close>

text \<open>
  The removal timers pending for a key, and the relation between two states that hold
  the same entry and the same pending timers for a key.
\<close>

definition timers_of :: "string \<Rightarrow> state \<Rightarrow> (nat \<times> string) list" where
  "timers_of key st = filter (\<lambda>(d, k). k = key) (timers st)"

definition same_at :: "string \<Rightarrow> state \<Rightarrow> state \<Rightarrow> bool" where
  "same_at key st st' = (messageCache st key = messageCache st' key \<and> timers_of key st = timers_of key st')"

subsection \<open>Slow network calls\<close>

text \<open>
  A network call that takes longer than the 15 seconds of the race, or never settles.
\<close>

definition exceeds_race_timeout :: "net \<Rightarrow> bool" where
  "exceeds_race_timeout nw = (case nw of Never \<Rightarrow> True | Settles d outcome \<Rightarrow> race_timeout < d)"

text \<open>The timer of the race wins: the network call has not settled before it is due.\<close>

definition timer_wins :: "net \<Rightarrow> bool" where
  "timer_wins nw = (case nw of Never \<Rightarrow> True | Settles d outcome \<Rightarrow> race_timeout \<le> d)"

subsection \<open>Sample responses and runs\<close>

text \<open>
  The body of a response whose only choice carries the given text, and the state
  after two calls of \<^verbatim>\<open>sendMessage\<close> for the message \<^verbatim>\<open>Hello\<close> that overlap: both
  miss the cache before either response has arrived, the first response arrives at
  1000 ms and the second at 2000 ms.
\<close>

definition completion :: "string \<Rightarrow> js" where
  "completion s = Obj [(''choices'', Arr [Obj [(''message'', Obj [(''content'', Str s)])]])]"

definition two_overlapping_sends :: state where
  "two_overlapping_sends =
     snd (sendMessage_finish (cacheKey [] ''Hello'') (Fulfilled (completion ''second''))
       (advance 2000
         (snd (sendMessage_finish (cacheKey [] ''Hello'') (Fulfilled (completion ''first''))
           (advance 1000
             (snd (sendMessage_begin ''Hello'' []
               (snd (sendMessage_begin ''Hello'' [] init)))))))))"

subsection \<open>Failing sends\<close>

text \<open>
  The error with which lines 62 to 72 throw, if they do: the rejection of
  \<^verbatim>\<open>api.post\<close>, or the TypeError of reading \<^verbatim>\<open>choices[0].message.content\<close> off the
  response body. A send fails when that happens before the 15 seconds of the race are
  over, or when the timer of the race wins: the network call has not settled before
  the 15 seconds are over. The race then settles after \<open>settle_delay\<close>.
\<close>

definition throws :: "transport_result \<Rightarrow> error option" where
  "throws outcome =
     (case outcome of
        Rejected e \<Rightarrow> Some e
      | Fulfilled data \<Rightarrow> (case completion_text data of Inl e \<Rightarrow> Some e | Inr v \<Rightarrow> None))"

definition send_fails :: "net \<Rightarrow> bool" where
  "send_fails nw =
     (case nw of
        Never \<Rightarrow> True
      | Settles d outcome \<Rightarrow> if d < race_timeout then throws outcome \<noteq> None else True)"

definition settle_delay :: "net \<Rightarrow> nat" where
  "settle_delay nw = (case nw of Never \<Rightarrow> race_timeout | Settles d outcome \<Rightarrow> min d race_timeout)"

subsection \<open>States reached by sends that never overlap\<close>

text \<open>
  No call is in flight, every key has at most one pending removal timer, and only
  keys that are in the cache have one. The initial state is such a state, and awaited
  calls of \<^verbatim>\<open>sendMessage\<close> and the passage of time lead from one to another.
\<close>

definition settled :: "state \<Rightarrow> bool" where
  "settled st =
     (abandoned st = [] \<and> distinct (map snd (timers st)) \<and>
      snd ` set (timers st) \<subseteq> dom (messageCache st))"

subsection \<open>Values without properties\<close>

text \<open>
  \<^verbatim>\<open>undefined\<close> and \<^verbatim>\<open>null\<close>: reading a property off either throws.
\<close>

definition nullish :: "js \<Rightarrow> bool" where
  "nullish v = (v = Undefined \<or> v = Null)"

subsection \<open>Entries that are about to expire, calls that store\<close>


definition stores_under :: "string \<Rightarrow> nat \<times> string \<times> transport_result \<Rightarrow> bool" where
  "stores_under key x = (fst (snd x) = key \<and> throws (snd (snd x)) = None)"

text \<open>
  The state at 316000 ms of a conversation in which \<^verbatim>\<open>Hello\<close> was sent twice: the
  first send at 0 ms lost the race, its response arriving only after 40000 ms; the
  second send at 15000 ms was answered within a second. The entry of the second send
  was stored at 16000 ms, the response of the first send overwrote it at 40000 ms, the
  timer of the former has just emptied the key, and the timer of the latter is still
  pending, due at 340000 ms.
\<close>

definition stale_timer_pending :: state where
  "stale_timer_pending =
     advance 316000
       (handleSend ''Hello'' (Settles 1000 (Fulfilled (completion ''quick'')))
         (handleSend ''Hello'' (Settles 40000 (Fulfilled (completion ''slow''))) init))"

section \<open>Properties\<close>

subsection \<open>Timers, abandoned calls and the passage of time\<close>

lemma evict_apply:
  "evict t ts c k = (if \<exists>d. (d, k) \<in> set ts \<and> d \<le> t then None else c k)"
  by (induction ts arbitrary: c) auto

lemma tick_fields [simp]:
  "timers (tick t st) = filter (\<lambda>(d, k). t < d) (timers st)"
  "clock (tick t st) = max (clock st) t"
  "abandoned (tick t st) = abandoned st"
  "requests (tick t st) = requests st"
  "messages (tick t st) = messages st"
  "isLoading (tick t st) = isLoading st"
  by (simp_all add: tick_def)

lemma tick_cache:
  "messageCache (tick t st) k =
     (if \<exists>d. (d, k) \<in> set (timers st) \<and> d \<le> t then None else messageCache st k)"
  by (simp add: tick_def evict_apply)

lemma tick_tick: "a \<le> t \<Longrightarrow> tick t (tick a st) = tick t st"
proof -
  assume le: "a \<le> t"
  have c: "messageCache (tick t (tick a st)) = messageCache (tick t st)"
  proof
    fix k
    show "messageCache (tick t (tick a st)) k = messageCache (tick t st) k"
      using le by (auto simp: tick_cache)
  qed
  show ?thesis
    using le by (intro state.equality) (auto simp: c intro!: filter_cong)
qed

lemma finish_fields [simp]:
  "abandoned (snd (sendMessage_finish key outcome st)) = abandoned st"
  "clock (snd (sendMessage_finish key outcome st)) = clock st"
  "requests (snd (sendMessage_finish key outcome st)) = requests st"
  "messages (snd (sendMessage_finish key outcome st)) = messages st"
  "isLoading (snd (sendMessage_finish key outcome st)) = isLoading st"
  by (simp_all add: sendMessage_finish_def split: transport_result.split sum.split)

lemma finish_other_key:
  "k \<noteq> key \<Longrightarrow> same_at key (snd (sendMessage_finish k outcome st)) st"
  by (simp add: sendMessage_finish_def same_at_def timers_of_def
        split: transport_result.split sum.split)

lemma deliver_fields [simp]:
  "abandoned (deliver st x) = abandoned st"
  "clock (deliver st x) = max (clock st) (fst x)"
  "requests (deliver st x) = requests st"
  "messages (deliver st x) = messages st"
  "isLoading (deliver st x) = isLoading st"
  by (simp_all add: deliver_def split: prod.split)

lemma foldl_deliver_fields [simp]:
  "abandoned (foldl deliver st xs) = abandoned st"
  "requests (foldl deliver st xs) = requests st"
  "messages (foldl deliver st xs) = messages st"
  "isLoading (foldl deliver st xs) = isLoading st"
  by (induction xs arbitrary: st) simp_all

lemma foldl_deliver_clock:
  "clock st \<le> b \<Longrightarrow> \<forall>x\<in>set xs. fst x \<le> b \<Longrightarrow> clock (foldl deliver st xs) \<le> b"
  by (induction xs arbitrary: st) simp_all

lemma foldl_deliver_clock_ge: "clock st \<le> clock (foldl deliver st xs)"
proof (induction xs arbitrary: st)
  case Nil
  show ?case by simp
next
  case (Cons x xs)
  have "clock st \<le> clock (deliver st x)" by simp
  also have "\<dots> \<le> clock (foldl deliver (deliver st x) xs)" by (rule Cons.IH)
  finally show ?case by simp
qed

lemma advance_fields [simp]:
  "abandoned (advance t st) = filter (\<lambda>(a, k, outcome). t < a) (abandoned st)"
  "requests (advance t st) = requests st"
  "messages (advance t st) = messages st"
  "isLoading (advance t st) = isLoading st"
  by (simp_all add: advance_def)

lemma advance_clock [simp]: "clock (advance t st) = max (clock st) t"
proof -
  let ?st = "st\<lparr>abandoned := filter (\<lambda>(a, k, outcome). t < a) (abandoned st)\<rparr>"
  let ?due = "sort_key fst (filter (\<lambda>(a, k, outcome). a \<le> t) (abandoned st))"
  have "clock (foldl deliver ?st ?due) \<le> max (clock st) t"
    by (rule foldl_deliver_clock) auto
  moreover have "clock st \<le> clock (foldl deliver ?st ?due)"
    using foldl_deliver_clock_ge [of ?st ?due] by simp
  ultimately show ?thesis
    by (simp add: advance_def)
qed

lemma same_at_refl [simp]: "same_at key st st"
  by (simp add: same_at_def)

lemma same_at_trans: "same_at key a b \<Longrightarrow> same_at key b c \<Longrightarrow> same_at key a c"
  by (simp add: same_at_def)

lemma timers_of_mem: "(d, key) \<in> set (timers_of key st) \<longleftrightarrow> (d, key) \<in> set (timers st)"
  by (auto simp: timers_of_def)

lemma timers_of_tick: "timers_of key (tick t st) = filter (\<lambda>(d, k). t < d) (timers_of key st)"
  by (simp add: timers_of_def) (metis (mono_tags, lifting) filter_cong conj_commute)

lemma same_at_tick:
  assumes "same_at key st st'"
  shows "same_at key (tick t st) (tick t st')"
proof -
  have "(\<exists>d. (d, key) \<in> set (timers st) \<and> d \<le> t) \<longleftrightarrow> (\<exists>d. (d, key) \<in> set (timers st') \<and> d \<le> t)"
    using assms timers_of_mem [of _ key st] timers_of_mem [of _ key st']
    by (simp add: same_at_def)
  with assms show ?thesis
    by (auto simp: same_at_def tick_cache timers_of_tick)
qed

lemma same_at_deliver:
  assumes "fst (snd x) \<noteq> key"
  shows "same_at key (deliver st x) (tick (fst x) st)"
proof -
  obtain a k outcome where x: "x = (a, k, outcome)" by (cases x)
  with assms have "k \<noteq> key" by simp
  then show ?thesis
    by (simp add: x deliver_def finish_other_key)
qed

lemma same_at_foldl:
  "\<forall>x\<in>set xs. fst x \<le> t \<and> fst (snd x) \<noteq> key \<Longrightarrow>
   same_at key (tick t (foldl deliver st xs)) (tick t st)"
proof (induction xs arbitrary: st)
  case Nil
  show ?case by simp
next
  case (Cons x xs)
  have "same_at key (tick t (foldl deliver (deliver st x) xs)) (tick t (deliver st x))"
    using Cons.prems by (intro Cons.IH) simp
  moreover have "same_at key (tick t (deliver st x)) (tick t (tick (fst x) st))"
    using Cons.prems by (intro same_at_tick same_at_deliver) simp
  moreover have "tick t (tick (fst x) st) = tick t st"
    using Cons.prems by (intro tick_tick) simp
  ultimately show ?case
    by (auto intro: same_at_trans)
qed

lemma same_at_advance:
  assumes "\<forall>x\<in>set (abandoned st). fst (snd x) = key \<longrightarrow> t < fst x"
  shows "same_at key (advance t st) (tick t st)"
proof -
  let ?st = "st\<lparr>abandoned := filter (\<lambda>(a, k, outcome). t < a) (abandoned st)\<rparr>"
  let ?due = "sort_key fst (filter (\<lambda>(a, k, outcome). a \<le> t) (abandoned st))"
  have "same_at key (tick t (foldl deliver ?st ?due)) (tick t ?st)"
    using assms by (intro same_at_foldl) (auto simp: not_less)
  moreover have "same_at key (tick t ?st) (tick t st)"
    by (intro same_at_tick) (simp add: same_at_def timers_of_def)
  ultimately show ?thesis
    unfolding advance_def by (rule same_at_trans)
qed

lemma advance_cache:
  assumes "\<forall>x\<in>set (abandoned st). fst (snd x) = key \<longrightarrow> t < fst x"
  shows "messageCache (advance t st) key =
           (if \<exists>d. (d, key) \<in> set (timers st) \<and> d \<le> t then None else messageCache st key)"
  using same_at_advance [OF assms] by (simp add: same_at_def tick_cache)

lemma advance_timers_of:
  assumes "\<forall>x\<in>set (abandoned st). fst (snd x) = key \<longrightarrow> t < fst x"
  shows "timers_of key (advance t st) = filter (\<lambda>(d, k). t < d) (timers_of key st)"
  using same_at_advance [OF assms] by (simp add: same_at_def timers_of_tick)

subsection \<open>The awaited call\<close>

lemma sendMessage_hit:
  "messageCache st (cacheKey systemPrompt msg) = Some v \<Longrightarrow>
   sendMessage msg systemPrompt nw st = (Some (Inr v), st)"
  by (simp add: sendMessage_def sendMessage_begin_def)

lemma sendMessage_miss:
  "messageCache st (cacheKey systemPrompt msg) = None \<Longrightarrow>
   sendMessage msg systemPrompt (Settles d outcome) st =
     (Some (fst (sendMessage_finish (cacheKey systemPrompt msg) outcome
                  (advance (clock st + d) (st\<lparr>requests := requests st @ [chat_request systemPrompt msg]\<rparr>)))),
      snd (sendMessage_finish (cacheKey systemPrompt msg) outcome
                  (advance (clock st + d) (st\<lparr>requests := requests st @ [chat_request systemPrompt msg]\<rparr>))))"
  by (simp add: sendMessage_def sendMessage_begin_def split: prod.split)

lemma sendMessage_never:
  "messageCache st (cacheKey systemPrompt msg) = None \<Longrightarrow>
   sendMessage msg systemPrompt Never st =
     (None, st\<lparr>requests := requests st @ [chat_request systemPrompt msg]\<rparr>)"
  by (simp add: sendMessage_def sendMessage_begin_def)

subsection \<open>Cache hits and misses\<close>

text \<open>
  C7. When the key built from the system prompt and the message is in the cache,
  \<^verbatim>\<open>sendMessage\<close> returns the cached value at once and leaves the whole state as it
  was: no request is issued, the cache, the timers and the clock are untouched,
  whatever the network would have done. When the key is not in the cache, the lookup
  itself changes neither the cache nor the timers.
\<close>

theorem hit_returns_cached_without_effect:
  "(messageCache st (cacheKey systemPrompt msg) = Some v \<longrightarrow>
      sendMessage msg systemPrompt nw st = (Some (Inr v), st)) \<and>
   (messageCache st (cacheKey systemPrompt msg) = None \<longrightarrow>
      messageCache (snd (sendMessage_begin msg systemPrompt st)) = messageCache st \<and>
      timers (snd (sendMessage_begin msg systemPrompt st)) = timers st)"
  by (simp add: sendMessage_hit sendMessage_begin_def)

theorem hit_returns_cached_without_effect_witness:
  "messageCache (init\<lparr>messageCache := [cacheKey [] ''Hello'' \<mapsto> Str ''Hi there!'']\<rparr>)
      (cacheKey [] ''Hello'') = Some (Str ''Hi there!'') \<and>
   sendMessage ''Hello'' [] Never (init\<lparr>messageCache := [cacheKey [] ''Hello'' \<mapsto> Str ''Hi there!'']\<rparr>)
     = (Some (Inr (Str ''Hi there!'')), init\<lparr>messageCache := [cacheKey [] ''Hello'' \<mapsto> Str ''Hi there!'']\<rparr>) \<and>
   messageCache init (cacheKey [] ''Hello'') = None \<and>
   messageCache (snd (sendMessage_begin ''Hello'' [] init)) = messageCache init \<and>
   timers (snd (sendMessage_begin ''Hello'' [] init)) = timers init"
  using hit_returns_cached_without_effect
          [of "init\<lparr>messageCache := [cacheKey [] ''Hello'' \<mapsto> Str ''Hi there!'']\<rparr>"
              "[]" "''Hello''" "Str ''Hi there!''" Never]
        hit_returns_cached_without_effect [of init "[]" "''Hello''"]
  by (simp add: init_def)

text \<open>
  C8. On a cache miss \<^verbatim>\<open>sendMessage\<close> adds exactly one request to those issued so far,
  whatever the network then does: a POST whose body holds the model identifier
  \<^verbatim>\<open>gpt-3.5-turbo\<close>, the messages array of a system message with the system prompt
  followed by a user message with the message, the temperature 0.7 and 500 as
  \<^verbatim>\<open>max_tokens\<close>.
\<close>

theorem miss_issues_one_post:
  assumes "messageCache st (cacheKey systemPrompt msg) = None"
  shows "requests (snd (sendMessage msg systemPrompt nw st)) =
           requests st @
             [\<lparr>verb = ''POST'', path = ''/chat/completions'',
               body = Obj [(''model'', Str ''gpt-3.5-turbo''),
                           (''messages'',
                              Arr [Obj [(''role'', Str ''system''), (''content'', Str systemPrompt)],
                                   Obj [(''role'', Str ''user''), (''content'', Str msg)]]),
                           (''temperature'', Num (7 / 10)),
                           (''max_tokens'', Num 500)]\<rparr>]"
proof (cases nw)
  case Never
  with assms show ?thesis
    by (simp add: sendMessage_never chat_request_def)
next
  case (Settles d outcome)
  with assms show ?thesis
    by (simp add: sendMessage_miss chat_request_def)
qed

theorem miss_issues_one_post_witness:
  "messageCache init (cacheKey ''Be brief.'' ''Hello'') = None \<and>
   requests (snd (sendMessage ''Hello'' ''Be brief.'' (Settles 800 (Rejected (BadStatus 500))) init)) =
     [\<lparr>verb = ''POST'', path = ''/chat/completions'',
       body = Obj [(''model'', Str ''gpt-3.5-turbo''),
                   (''messages'',
                      Arr [Obj [(''role'', Str ''system''), (''content'', Str ''Be brief.'')],
                           Obj [(''role'', Str ''user''), (''content'', Str ''Hello'')]]),
                   (''temperature'', Num (7 / 10)),
                   (''max_tokens'', Num 500)]\<rparr>]"
proof -
  have miss: "messageCache init (cacheKey ''Be brief.'' ''Hello'') = None"
    by (simp add: init_def)
  have "requests init = []"
    by (simp add: init_def)
  with miss miss_issues_one_post [OF miss, of "Settles 800 (Rejected (BadStatus 500))"]
  show ?thesis by simp
qed

subsection \<open>The result of a response\<close>

lemma finish_success:
  assumes "fst (sendMessage_finish key outcome st) = Inr v"
  shows "messageCache (snd (sendMessage_finish key outcome st)) key = Some v"
  using assms
  by (auto simp: sendMessage_finish_def split: transport_result.splits sum.splits)


lemma finish_stores:
  assumes "completion_text data = Inr v"
  shows "sendMessage_finish key (Fulfilled data) st =
           (Inr v, st\<lparr>messageCache := (messageCache st)(key \<mapsto> v),
                      timers := timers st @ [(clock st + ttl, key)]\<rparr>)"
  using assms by (simp add: sendMessage_finish_def)



subsection \<open>The cache key\<close>

text \<open>
  C9. The key of every pair is the concatenation of the system prompt, a colon and the
  message, and it is not injective: the distinct pairs (\<^verbatim>\<open>a:b\<close>, \<^verbatim>\<open>c\<close>) and (\<^verbatim>\<open>a\<close>, \<^verbatim>\<open>b:c\<close>) of
  system prompt and message have the same key, so once a send for the first pair has
  returned a completion, a send for the second pair returns that same completion from
  the cache, whatever the network would have answered.
\<close>

theorem key_collision_serves_other_pair:
  "(\<forall>systemPrompt msg. cacheKey systemPrompt msg = systemPrompt @ '':'' @ msg) \<and>
   cacheKey ''a:b'' ''c'' = cacheKey ''a'' ''b:c'' \<and>
   (''a:b'', ''c'') \<noteq> (''a'', ''b:c'') \<and>
   (\<forall>st d outcome nw v.
      fst (sendMessage ''c'' ''a:b'' (Settles d outcome) st) = Some (Inr v) \<longrightarrow>
      sendMessage ''b:c'' ''a'' nw (snd (sendMessage ''c'' ''a:b'' (Settles d outcome) st)) =
        (Some (Inr v), snd (sendMessage ''c'' ''a:b'' (Settles d outcome) st)))"
proof (intro conjI allI impI)
  show "cacheKey systemPrompt msg = systemPrompt @ '':'' @ msg" for systemPrompt msg
    by (simp add: cacheKey_def)
  show "cacheKey ''a:b'' ''c'' = cacheKey ''a'' ''b:c''"
    by (simp add: cacheKey_def)
  show "(''a:b'', ''c'') \<noteq> (''a'', ''b:c'')"
    by simp
next
  fix st d outcome nw v
  let ?first = "sendMessage ''c'' ''a:b'' (Settles d outcome) st"
  assume ok: "fst ?first = Some (Inr v)"
  have key: "cacheKey ''a'' ''b:c'' = cacheKey ''a:b'' ''c''"
    by (simp add: cacheKey_def)
  have "messageCache (snd ?first) (cacheKey ''a:b'' ''c'') = Some v"
  proof (cases "messageCache st (cacheKey ''a:b'' ''c'')")
    case None
    with ok show ?thesis
      by (simp add: sendMessage_miss finish_success)
  next
    case (Some w)
    with ok show ?thesis
      by (simp add: sendMessage_hit)
  qed
  then show "sendMessage ''b:c'' ''a'' nw (snd ?first) = (Some (Inr v), snd ?first)"
    by (intro sendMessage_hit) (simp add: key)
qed

theorem key_collision_serves_other_pair_witness:
  "fst (sendMessage ''c'' ''a:b''
          (Settles 800 (Fulfilled (Obj [(''choices'', Arr [Obj [(''message'', Obj [(''content'', Str ''for a:b'')])]])])))
          init) = Some (Inr (Str ''for a:b'')) \<and>
   fst (sendMessage ''b:c'' ''a'' Never
          (snd (sendMessage ''c'' ''a:b''
                  (Settles 800 (Fulfilled (Obj [(''choices'', Arr [Obj [(''message'', Obj [(''content'', Str ''for a:b'')])]])])))
                  init))) = Some (Inr (Str ''for a:b''))"
proof -
  let ?nw = "Settles 800 (Fulfilled (Obj [(''choices'', Arr [Obj [(''message'', Obj [(''content'', Str ''for a:b'')])]])]))"
  have first: "fst (sendMessage ''c'' ''a:b'' ?nw init) = Some (Inr (Str ''for a:b''))"
    by (simp add: sendMessage_miss init_def cacheKey_def finish_stores completion_text_def)
  moreover from first key_collision_serves_other_pair
  have "sendMessage ''b:c'' ''a'' Never (snd (sendMessage ''c'' ''a:b'' ?nw init)) =
          (Some (Inr (Str ''for a:b'')), snd (sendMessage ''c'' ''a:b'' ?nw init))"
    by blast
  ultimately show ?thesis by simp
qed

subsection \<open>The race against the timer\<close>

lemma exceeds_timer_wins: "exceeds_race_timeout nw \<Longrightarrow> timer_wins nw"
  by (cases nw) (simp_all add: exceeds_race_timeout_def timer_wins_def)

lemma awaitRace_timeout:
  assumes "messageCache st (cacheKey [] txt) = None" and "timer_wins nw"
  shows "fst (awaitRace txt nw st) = Inl RequestTimeout"
    and "clock (snd (awaitRace txt nw st)) = clock st + race_timeout"
    and "messages (snd (awaitRace txt nw st)) = messages st"
    and "isLoading (snd (awaitRace txt nw st)) = isLoading st"
    and "requests (snd (awaitRace txt nw st)) = requests st @ [chat_request [] txt]"
  using assms
  by (simp_all add: awaitRace_def sendMessage_begin_def timer_wins_def split: net.splits)

text \<open>
  C5. For a send that misses the cache and whose network call takes longer than 15
  seconds or never settles, the race of lines 138 to 145 settles with the timer's
  Error, and \<^verbatim>\<open>handleSend\<close> comes to its end 15000 ms after it started: the loading
  flag is off again and the conversation has grown by the user's message and the
  fallback message.
\<close>

theorem slow_send_times_out:
  assumes "trim txt \<noteq> []"
    and "messageCache st (cacheKey [] txt) = None"
    and "exceeds_race_timeout nw"
  shows "fst (awaitRace txt nw (setIsLoading True (addMessage (Str txt) True st))) = Inl RequestTimeout \<and>
         clock (handleSend txt nw st) = clock st + 15000 \<and>
         isLoading (handleSend txt nw st) = False \<and>
         messages (handleSend txt nw st) =
           messages st @
             [\<lparr>content = Str txt, isUser = True, timestamp = clock st\<rparr>,
              \<lparr>content = Str ''Sorry, there was an error processing your request.'',
               isUser = False, timestamp = clock st + 15000\<rparr>]"
proof -
  let ?st = "setIsLoading True (addMessage (Str txt) True st)"
  have miss: "messageCache ?st (cacheKey [] txt) = None"
    using assms(2) by (simp add: setIsLoading_def addMessage_def)
  note r = awaitRace_timeout [OF miss exceeds_timer_wins [OF assms(3)]]
  obtain e st1 where a: "awaitRace txt nw ?st = (Inl e, st1)"
    using r(1) by (cases "awaitRace txt nw ?st") auto
  have st1: "clock st1 = clock st + race_timeout" "messages st1 = messages ?st"
    using r(2,3) a by (simp_all add: setIsLoading_def addMessage_def)
  show ?thesis
    using assms(1) a r(1) st1
    by (simp add: handleSend_def setIsLoading_def addMessage_def race_timeout_def fallback_def)
qed

theorem slow_send_times_out_witness:
  "trim ''Hello'' \<noteq> [] \<and> messageCache init (cacheKey [] ''Hello'') = None \<and>
   exceeds_race_timeout Never \<and>
   clock (handleSend ''Hello'' Never init) = 15000 \<and>
   isLoading (handleSend ''Hello'' Never init) = False \<and>
   messages (handleSend ''Hello'' Never init) =
     [\<lparr>content = Str ''Hello'', isUser = True, timestamp = 0\<rparr>,
      \<lparr>content = Str ''Sorry, there was an error processing your request.'',
       isUser = False, timestamp = 15000\<rparr>]"
proof -
  have h1: "trim ''Hello'' \<noteq> []"
    by (simp add: trim_def whitespace_def)
  have h2: "messageCache init (cacheKey [] ''Hello'') = None"
    by (simp add: init_def)
  have h3: "exceeds_race_timeout Never"
    by (simp add: exceeds_race_timeout_def)
  have "clock init = 0" "messages init = []"
    by (simp_all add: init_def)
  with h1 h2 h3 slow_send_times_out [OF h1 h2 h3] show ?thesis
    by simp
qed

subsection \<open>Expiry of cache entries\<close>

lemma completion_text_completion [simp]: "completion_text (completion s) = Inr (Str s)"
  by (simp add: completion_def completion_text_def)

lemma advance_timers_mem:
  assumes "\<forall>x\<in>set (abandoned st). fst (snd x) = key \<longrightarrow> t < fst x"
  shows "(d, key) \<in> set (timers (advance t st)) \<longleftrightarrow> (d, key) \<in> set (timers st) \<and> t < d"
proof -
  have "(d, key) \<in> set (timers (advance t st)) \<longleftrightarrow> (d, key) \<in> set (timers_of key (advance t st))"
    by (simp add: timers_of_mem)
  also have "\<dots> \<longleftrightarrow> (d, key) \<in> set (timers_of key st) \<and> t < d"
    by (auto simp: advance_timers_of [OF assms])
  finally show ?thesis
    by (simp add: timers_of_mem)
qed

lemma sendMessage_requests:
  "messageCache st (cacheKey systemPrompt msg) = None \<Longrightarrow>
   requests (snd (sendMessage msg systemPrompt nw st)) = requests st @ [chat_request systemPrompt msg]"
  by (cases nw) (simp_all add: sendMessage_never sendMessage_miss)

lemma two_overlapping_sends_eq:
  "two_overlapping_sends =
     \<lparr>messageCache = [cacheKey [] ''Hello'' \<mapsto> Str ''second''],
      timers = [(301000, cacheKey [] ''Hello''), (302000, cacheKey [] ''Hello'')],
      abandoned = [], clock = 2000,
      requests = [chat_request [] ''Hello'', chat_request [] ''Hello''],
      messages = [], isLoading = False\<rparr>"
  by (simp add: two_overlapping_sends_def sendMessage_begin_def init_def finish_stores
        advance_def tick_def ttl_def)

text \<open>
  C1 as stated does not hold. Two overlapping calls store \<^verbatim>\<open>first\<close> at 1000 ms and
  \<^verbatim>\<open>second\<close> at 2000 ms under the same key. Nothing cancels the timer of the first
  store: it fires at 301000 ms and deletes the key, while the time-to-live of
  \<^verbatim>\<open>second\<close> lasts until 302000 ms.
\<close>

theorem stale_timer_counterexample:
  "messageCache two_overlapping_sends (cacheKey [] ''Hello'') = Some (Str ''second'') \<and>
   (301000 :: nat) < 2000 + ttl \<and>
   messageCache (advance 301000 two_overlapping_sends) (cacheKey [] ''Hello'') = None"
  by (simp add: two_overlapping_sends_eq advance_def tick_def ttl_def)

text \<open>
  C1, amended. When a value \<open>v1\<close> is stored under a key at time \<open>clock st\<close> and a value
  \<open>v2\<close> under the same key at a time \<open>t2\<close> before the timer of \<open>v1\<close> fires, and no
  other timer or call in flight concerns the key, then \<open>v2\<close> is what a lookup finds
  from \<open>t2\<close> until the expiry time of \<open>v1\<close>, \<open>clock st + 300000\<close>; at that time the
  timer scheduled for \<open>v1\<close> removes \<open>v2\<close>, and the key stays absent from then on.
\<close>

theorem stale_timer_removes_newer_value:
  assumes "completion_text data1 = Inr v1"
    and "completion_text data2 = Inr v2"
    and "clock st \<le> t2"
    and "t2 < clock st + 300000"
    and "\<forall>x\<in>set (timers st). snd x \<noteq> key"
    and "\<forall>x\<in>set (abandoned st). fst (snd x) \<noteq> key"
  shows "(\<forall>t. t2 \<le> t \<and> t < clock st + 300000 \<longrightarrow>
            messageCache
              (advance t (snd (sendMessage_finish key (Fulfilled data2)
                 (advance t2 (snd (sendMessage_finish key (Fulfilled data1) st))))))
              key = Some v2) \<and>
         (\<forall>t. clock st + 300000 \<le> t \<longrightarrow>
            messageCache
              (advance t (snd (sendMessage_finish key (Fulfilled data2)
                 (advance t2 (snd (sendMessage_finish key (Fulfilled data1) st))))))
              key = None)"
proof -
  let ?st1 = "snd (sendMessage_finish key (Fulfilled data1) st)"
  let ?stA = "advance t2 ?st1"
  let ?st2 = "snd (sendMessage_finish key (Fulfilled data2) ?stA)"
  have ab1: "\<forall>x\<in>set (abandoned ?st1). fst (snd x) = key \<longrightarrow> t2 < fst x"
    using assms(6) by simp
  have t1: "(d, key) \<in> set (timers ?st1) \<longleftrightarrow> d = clock st + ttl" for d
    using assms(1,5) by (auto simp: finish_stores)
  have tA: "(d, key) \<in> set (timers ?stA) \<longleftrightarrow> d = clock st + ttl" for d
    using assms(4) by (auto simp: advance_timers_mem [OF ab1] t1 ttl_def)
  have t2: "(d, key) \<in> set (timers ?st2) \<longleftrightarrow> d = clock st + ttl \<or> d = t2 + ttl" for d
    using assms(2,3) tA [of d] by (auto simp: finish_stores max_def)
  have c2: "messageCache ?st2 key = Some v2"
    using assms(2) by (simp add: finish_stores)
  have ab2: "\<forall>x\<in>set (abandoned ?st2). fst (snd x) = key \<longrightarrow> t < fst x" for t
    using assms(6) by simp
  have live: "messageCache (advance t ?st2) key = Some v2" if "t2 \<le> t" "t < clock st + 300000" for t
    using that assms(3) by (auto simp: advance_cache [OF ab2] t2 c2 ttl_def)
  have dead: "messageCache (advance t ?st2) key = None" if "clock st + 300000 \<le> t" for t
    using that by (auto simp: advance_cache [OF ab2] t2 ttl_def)
  from live dead show ?thesis
    by blast
qed

theorem stale_timer_removes_newer_value_witness:
  "completion_text (completion ''first'') = Inr (Str ''first'') \<and>
   completion_text (completion ''second'') = Inr (Str ''second'') \<and>
   clock init \<le> 2000 \<and> 2000 < clock init + 300000 \<and>
   timers init = [] \<and> abandoned init = [] \<and>
   messageCache
     (advance 299999 (snd (sendMessage_finish '':Hello'' (Fulfilled (completion ''second''))
        (advance 2000 (snd (sendMessage_finish '':Hello'' (Fulfilled (completion ''first'')) init))))))
     '':Hello'' = Some (Str ''second'') \<and>
   messageCache
     (advance 300000 (snd (sendMessage_finish '':Hello'' (Fulfilled (completion ''second''))
        (advance 2000 (snd (sendMessage_finish '':Hello'' (Fulfilled (completion ''first'')) init))))))
     '':Hello'' = None"
proof -
  have h1: "completion_text (completion ''first'') = Inr (Str ''first'')"
    and h2: "completion_text (completion ''second'') = Inr (Str ''second'')"
    by simp_all
  have h3: "clock init \<le> 2000" and h4: "2000 < clock init + 300000"
    by (simp_all add: init_def)
  have e: "timers init = []" "abandoned init = []"
    by (simp_all add: init_def)
  have h5: "\<forall>x\<in>set (timers init). snd x \<noteq> '':Hello''"
    and h6: "\<forall>x\<in>set (abandoned init). fst (snd x) \<noteq> '':Hello''"
    by (simp_all add: e)
  have c: "clock init = 0"
    by (simp add: init_def)
  note inst = stale_timer_removes_newer_value [OF h1 h2 h3 h4 h5 h6]
  have "messageCache
     (advance 299999 (snd (sendMessage_finish '':Hello'' (Fulfilled (completion ''second''))
        (advance 2000 (snd (sendMessage_finish '':Hello'' (Fulfilled (completion ''first'')) init))))))
     '':Hello'' = Some (Str ''second'')"
    using inst by (simp add: c)
  moreover have "messageCache
     (advance 300000 (snd (sendMessage_finish '':Hello'' (Fulfilled (completion ''second''))
        (advance 2000 (snd (sendMessage_finish '':Hello'' (Fulfilled (completion ''first'')) init))))))
     '':Hello'' = None"
    using inst by (simp add: c)
  ultimately show ?thesis
    using h1 h2 h3 h4 e by simp
qed

text \<open>
  C2 as stated does not hold. After the two overlapping calls above, the timer of
  the first store has emptied the key at 301000 ms and the timer of the second store
  is still pending, due at 302000 ms. A call at 301000 ms misses, issues a request
  and returns \<^verbatim>\<open>third\<close> at 301500 ms; the stale timer removes that entry at 302000 ms;
  the next call, at 303000 ms and so well within 5 minutes, misses again, issues a
  second request and returns \<^verbatim>\<open>fourth\<close>.
\<close>

theorem second_call_counterexample:
  "fst (sendMessage ''Hello'' [] (Settles 500 (Fulfilled (completion ''third'')))
          (advance 301000 two_overlapping_sends)) = Some (Inr (Str ''third'')) \<and>
   clock (snd (sendMessage ''Hello'' [] (Settles 500 (Fulfilled (completion ''third'')))
          (advance 301000 two_overlapping_sends))) = 301500 \<and>
   (303000 :: nat) < 301500 + ttl \<and>
   fst (sendMessage ''Hello'' [] (Settles 500 (Fulfilled (completion ''fourth'')))
          (advance 303000
            (snd (sendMessage ''Hello'' [] (Settles 500 (Fulfilled (completion ''third'')))
               (advance 301000 two_overlapping_sends))))) = Some (Inr (Str ''fourth'')) \<and>
   length (requests
     (snd (sendMessage ''Hello'' [] (Settles 500 (Fulfilled (completion ''fourth'')))
          (advance 303000
            (snd (sendMessage ''Hello'' [] (Settles 500 (Fulfilled (completion ''third'')))
               (advance 301000 two_overlapping_sends)))))))
     = length (requests (advance 301000 two_overlapping_sends)) + 2"
  by (simp add: two_overlapping_sends_eq sendMessage_def sendMessage_begin_def finish_stores
        advance_def tick_def ttl_def cacheKey_def)

text \<open>
  C2, amended. Two consecutive successful calls of \<^verbatim>\<open>sendMessage\<close> with the same
  system prompt and message, the second made at a time \<open>t\<close> less than 5 minutes after
  the first returned, issue at most one request, and the second returns exactly what
  the first returned, provided that no removal timer already pending for the key when
  the first call starts is due by \<open>t\<close> and no other call in flight for the key
  completes by \<open>t\<close>. Both provisos hold when the first call misses and calls for
  one key never overlap.
\<close>

theorem second_call_served_from_cache:
  assumes "fst (sendMessage msg systemPrompt nw st) = Some (Inr r1)"
    and "clock (snd (sendMessage msg systemPrompt nw st)) \<le> t"
    and "t < clock (snd (sendMessage msg systemPrompt nw st)) + 300000"
    and "\<forall>x\<in>set (timers st). snd x = cacheKey systemPrompt msg \<longrightarrow> t < fst x"
    and "\<forall>x\<in>set (abandoned st). fst (snd x) = cacheKey systemPrompt msg \<longrightarrow> t < fst x"
  shows "sendMessage msg systemPrompt nw' (advance t (snd (sendMessage msg systemPrompt nw st))) =
           (Some (Inr r1), advance t (snd (sendMessage msg systemPrompt nw st))) \<and>
         length (requests (advance t (snd (sendMessage msg systemPrompt nw st)))) \<le> length (requests st) + 1"
proof -
  let ?key = "cacheKey systemPrompt msg"
  let ?st1 = "snd (sendMessage msg systemPrompt nw st)"
  have ab1: "\<forall>x\<in>set (abandoned ?st1). fst (snd x) = ?key \<longrightarrow> t < fst x"
    and c1: "messageCache ?st1 ?key = Some r1"
    and t1: "\<forall>d. (d, ?key) \<in> set (timers ?st1) \<longrightarrow> t < d"
    and rq: "length (requests ?st1) \<le> length (requests st) + 1"
  proof -
    show "\<forall>x\<in>set (abandoned ?st1). fst (snd x) = ?key \<longrightarrow> t < fst x"
      using assms(5)
      by (cases "messageCache st ?key"; cases nw)
         (auto simp: sendMessage_hit sendMessage_never sendMessage_miss)
    show "length (requests ?st1) \<le> length (requests st) + 1"
      by (cases "messageCache st ?key") (simp_all add: sendMessage_hit sendMessage_requests)
    show "messageCache ?st1 ?key = Some r1"
      using assms(1)
      by (cases "messageCache st ?key"; cases nw)
         (auto simp: sendMessage_hit sendMessage_never sendMessage_miss finish_success)
    show "\<forall>d. (d, ?key) \<in> set (timers ?st1) \<longrightarrow> t < d"
    proof (cases "messageCache st ?key")
      case (Some w)
      then show ?thesis
        using assms(4) by (auto simp: sendMessage_hit)
    next
      case None
      with assms(1) obtain d outcome where nw: "nw = Settles d outcome"
        by (cases nw) (simp_all add: sendMessage_never)
      let ?req = "st\<lparr>requests := requests st @ [chat_request systemPrompt msg]\<rparr>"
      let ?stA = "advance (clock st + d) ?req"
      have st1: "?st1 = snd (sendMessage_finish ?key outcome ?stA)"
        using None nw by (simp add: sendMessage_miss)
      from assms(1) obtain data where out: "outcome = Fulfilled data" "completion_text data = Inr r1"
        using None nw
        by (auto simp: sendMessage_miss sendMessage_finish_def split: transport_result.splits sum.splits)
      have cl: "clock ?st1 = clock st + d"
        by (simp add: st1)
      have abA: "\<forall>x\<in>set (abandoned ?req). fst (snd x) = ?key \<longrightarrow> clock st + d < fst x"
        using assms(5) assms(2) cl by fastforce
      have "t < e" if "(e, ?key) \<in> set (timers ?st1)" for e
      proof -
        from that have "(e, ?key) \<in> set (timers ?stA) \<or> e = clock ?stA + ttl"
          by (auto simp: st1 out finish_stores)
        then show ?thesis
        proof
          assume "(e, ?key) \<in> set (timers ?stA)"
          then have "(e, ?key) \<in> set (timers st)"
            by (simp add: advance_timers_mem [OF abA])
          with assms(4) show ?thesis by auto
        next
          assume "e = clock ?stA + ttl"
          with assms(3) cl show ?thesis by (simp add: ttl_def)
        qed
      qed
      then show ?thesis by blast
    qed
  qed
  have "messageCache (advance t ?st1) ?key = Some r1"
    using t1 c1 by (auto simp: advance_cache [OF ab1] not_le)
  then have "sendMessage msg systemPrompt nw' (advance t ?st1) = (Some (Inr r1), advance t ?st1)"
    by (rule sendMessage_hit)
  with rq show ?thesis
    by simp
qed

theorem second_call_served_from_cache_witness:
  "fst (sendMessage ''Hello'' [] (Settles 800 (Fulfilled (completion ''Hi there!''))) init)
     = Some (Inr (Str ''Hi there!'')) \<and>
   clock (snd (sendMessage ''Hello'' [] (Settles 800 (Fulfilled (completion ''Hi there!''))) init)) = 800 \<and>
   timers init = [] \<and> abandoned init = [] \<and>
   fst (sendMessage ''Hello'' [] (Settles 800 (Fulfilled (completion ''Something else'')))
          (advance 300799 (snd (sendMessage ''Hello'' [] (Settles 800 (Fulfilled (completion ''Hi there!''))) init))))
     = Some (Inr (Str ''Hi there!'')) \<and>
   length (requests
     (snd (sendMessage ''Hello'' [] (Settles 800 (Fulfilled (completion ''Something else'')))
          (advance 300799 (snd (sendMessage ''Hello'' [] (Settles 800 (Fulfilled (completion ''Hi there!''))) init))))))
     \<le> 1"
proof -
  let ?nw = "Settles 800 (Fulfilled (completion ''Hi there!''))"
  have miss: "messageCache init (cacheKey [] ''Hello'') = None"
    by (simp add: init_def)
  have e: "timers init = []" "abandoned init = []" "requests init = []" "clock init = 0"
    by (simp_all add: init_def)
  have h1: "fst (sendMessage ''Hello'' [] ?nw init) = Some (Inr (Str ''Hi there!''))"
    by (simp add: sendMessage_miss [OF miss] finish_stores)
  have cl: "clock (snd (sendMessage ''Hello'' [] ?nw init)) = 800"
    by (simp add: sendMessage_miss [OF miss] e)
  have h2: "clock (snd (sendMessage ''Hello'' [] ?nw init)) \<le> 300799"
    and h3: "300799 < clock (snd (sendMessage ''Hello'' [] ?nw init)) + 300000"
    by (simp_all add: cl)
  have h4: "\<forall>x\<in>set (timers init). snd x = cacheKey [] ''Hello'' \<longrightarrow> 300799 < fst x"
    and h5: "\<forall>x\<in>set (abandoned init). fst (snd x) = cacheKey [] ''Hello'' \<longrightarrow> 300799 < fst x"
    by (simp_all add: e)
  show ?thesis
    using h1 cl e
      second_call_served_from_cache
        [OF h1 h2 h3 h4 h5, of "Settles 800 (Fulfilled (completion ''Something else''))"]
    by simp
qed

subsection \<open>What the passage of time leaves alone\<close>

lemma tick_frame:
  "tick t (st\<lparr>requests := r\<rparr>) = (tick t st)\<lparr>requests := r\<rparr>"
  "tick t (st\<lparr>messages := m\<rparr>) = (tick t st)\<lparr>messages := m\<rparr>"
  "tick t (st\<lparr>isLoading := b\<rparr>) = (tick t st)\<lparr>isLoading := b\<rparr>"
  "tick t (st\<lparr>abandoned := ab\<rparr>) = (tick t st)\<lparr>abandoned := ab\<rparr>"
  by (simp_all add: tick_def)

lemma finish_frame:
  "sendMessage_finish key outcome (st\<lparr>requests := r\<rparr>) =
     (fst (sendMessage_finish key outcome st), (snd (sendMessage_finish key outcome st))\<lparr>requests := r\<rparr>)"
  "sendMessage_finish key outcome (st\<lparr>messages := m\<rparr>) =
     (fst (sendMessage_finish key outcome st), (snd (sendMessage_finish key outcome st))\<lparr>messages := m\<rparr>)"
  "sendMessage_finish key outcome (st\<lparr>isLoading := b\<rparr>) =
     (fst (sendMessage_finish key outcome st), (snd (sendMessage_finish key outcome st))\<lparr>isLoading := b\<rparr>)"
  "sendMessage_finish key outcome (st\<lparr>abandoned := ab\<rparr>) =
     (fst (sendMessage_finish key outcome st), (snd (sendMessage_finish key outcome st))\<lparr>abandoned := ab\<rparr>)"
  by (simp_all add: sendMessage_finish_def split: transport_result.split sum.split)

lemma deliver_frame:
  "deliver (st\<lparr>requests := r\<rparr>) x = (deliver st x)\<lparr>requests := r\<rparr>"
  "deliver (st\<lparr>messages := m\<rparr>) x = (deliver st x)\<lparr>messages := m\<rparr>"
  "deliver (st\<lparr>isLoading := b\<rparr>) x = (deliver st x)\<lparr>isLoading := b\<rparr>"
  "deliver (st\<lparr>abandoned := ab\<rparr>) x = (deliver st x)\<lparr>abandoned := ab\<rparr>"
  by (simp_all add: deliver_def tick_frame finish_frame split: prod.split)

lemma foldl_deliver_frame:
  "foldl deliver (st\<lparr>requests := r\<rparr>) xs = (foldl deliver st xs)\<lparr>requests := r\<rparr>"
  "foldl deliver (st\<lparr>messages := m\<rparr>) xs = (foldl deliver st xs)\<lparr>messages := m\<rparr>"
  "foldl deliver (st\<lparr>isLoading := b\<rparr>) xs = (foldl deliver st xs)\<lparr>isLoading := b\<rparr>"
  "foldl deliver (st\<lparr>abandoned := ab\<rparr>) xs = (foldl deliver st xs)\<lparr>abandoned := ab\<rparr>"
  by (induction xs arbitrary: st) (simp_all add: deliver_frame)

lemma advance_frame:
  "advance t (st\<lparr>requests := r\<rparr>) = (advance t st)\<lparr>requests := r\<rparr>"
  "advance t (st\<lparr>messages := m\<rparr>) = (advance t st)\<lparr>messages := m\<rparr>"
  "advance t (st\<lparr>isLoading := b\<rparr>) = (advance t st)\<lparr>isLoading := b\<rparr>"
  by (simp_all add: advance_def foldl_deliver_frame tick_frame)

lemma advance_abandoned_later:
  assumes "t < fst x"
  shows "advance t (st\<lparr>abandoned := abandoned st @ [x]\<rparr>) =
           (advance t st)\<lparr>abandoned := abandoned (advance t st) @ [x]\<rparr>"
proof -
  obtain a k outcome where x: "x = (a, k, outcome)" by (cases x)
  with assms have "t < a" by simp
  then show ?thesis
    by (simp add: advance_def x foldl_deliver_frame tick_frame)
qed

subsection \<open>Failures\<close>

lemma finish_throws:
  "throws outcome = Some e \<Longrightarrow> sendMessage_finish key outcome st = (Inl e, st)"
  by (auto simp: throws_def sendMessage_finish_def split: transport_result.splits sum.splits)

lemma handleSend_failure:
  assumes "trim txt \<noteq> []"
    and "messageCache st (cacheKey [] txt) = None"
    and "d < race_timeout"
    and "throws outcome = Some e"
  shows "handleSend txt (Settles d outcome) st =
           (advance (clock st + d) st)
             \<lparr>requests := requests st @ [chat_request [] txt],
              messages := messages st @
                [\<lparr>content = Str txt, isUser = True, timestamp = clock st\<rparr>,
                 \<lparr>content = Str fallback, isUser = False, timestamp = clock st + d\<rparr>],
              isLoading := False\<rparr>"
  using assms
  by (simp add: handleSend_def awaitRace_def sendMessage_begin_def setIsLoading_def addMessage_def
        finish_throws advance_frame)

lemma handleSend_timeout:
  assumes "trim txt \<noteq> []"
    and "messageCache st (cacheKey [] txt) = None"
    and "timer_wins nw"
  shows "handleSend txt nw st =
           (advance (clock st + race_timeout) st)
             \<lparr>abandoned :=
                (case nw of
                   Never \<Rightarrow> abandoned (advance (clock st + race_timeout) st)
                 | Settles d outcome \<Rightarrow>
                     abandoned (advance (clock st + race_timeout) st) @ [(clock st + d, cacheKey [] txt, outcome)]),
              requests := requests st @ [chat_request [] txt],
              messages := messages st @
                [\<lparr>content = Str txt, isUser = True, timestamp = clock st\<rparr>,
                 \<lparr>content = Str fallback, isUser = False, timestamp = clock st + race_timeout\<rparr>],
              isLoading := False\<rparr>"
proof (cases nw)
  case Never
  with assms(1,2) show ?thesis
    by (simp add: handleSend_def awaitRace_def sendMessage_begin_def setIsLoading_def addMessage_def
          advance_frame)
next
  case (Settles d outcome)
  with assms(3) have "\<not> d < race_timeout"
    by (simp add: timer_wins_def)
  with assms(1,2) Settles show ?thesis
    by (simp add: handleSend_def awaitRace_def sendMessage_begin_def setIsLoading_def addMessage_def
          advance_frame)
qed

lemma send_fails_cases:
  assumes "send_fails nw"
  obtains (fails) d outcome e where "nw = Settles d outcome" "d < race_timeout" "throws outcome = Some e"
    | (timeout) "timer_wins nw"
  using assms
  by (cases nw) (auto simp: send_fails_def timer_wins_def split: if_splits)

text \<open>
  C4 as stated does not hold for every malformed payload. A body whose first choice
  has a \<^verbatim>\<open>message\<close> without \<^verbatim>\<open>content\<close> makes line 72 evaluate to \<^verbatim>\<open>undefined\<close>
  without throwing: \<^verbatim>\<open>sendMessage\<close> returns \<^verbatim>\<open>undefined\<close> instead of failing, caches it
  under the key, and \<^verbatim>\<open>handleSend\<close> appends a bot message whose content is
  \<^verbatim>\<open>undefined\<close>, not the fixed string.
\<close>

theorem malformed_payload_counterexample:
  "fst (sendMessage ''Hello'' [] (Settles 800 (Fulfilled (Obj [(''choices'', Arr [Obj [(''message'', Obj [])]])]))) init)
     = Some (Inr Undefined) \<and>
   messageCache init (cacheKey [] ''Hello'') = None \<and>
   messageCache
     (snd (sendMessage ''Hello'' [] (Settles 800 (Fulfilled (Obj [(''choices'', Arr [Obj [(''message'', Obj [])]])]))) init))
     (cacheKey [] ''Hello'') = Some Undefined \<and>
   messages (handleSend ''Hello'' (Settles 800 (Fulfilled (Obj [(''choices'', Arr [Obj [(''message'', Obj [])]])]))) init)
     = [\<lparr>content = Str ''Hello'', isUser = True, timestamp = 0\<rparr>,
        \<lparr>content = Undefined, isUser = False, timestamp = 800\<rparr>]"
  by (simp add: sendMessage_def sendMessage_begin_def sendMessage_finish_def completion_text_def
        handleSend_def awaitRace_def setIsLoading_def addMessage_def race_timeout_def
        trim_def whitespace_def init_def cacheKey_def advance_def tick_def)

text \<open>
  C4, amended. On a cache miss, when \<^verbatim>\<open>api.post\<close> rejects (error status, transport
  error) or reading \<^verbatim>\<open>choices[0].message.content\<close> off the response body throws,
  \<^verbatim>\<open>sendMessage\<close> fails with that error, has issued its one request and no other, and
  leaves the cache and the timers as the passage of time alone would have. When that
  happens before the 15 seconds of the race are over, or the network call takes longer
  than those or never settles, the race of \<^verbatim>\<open>handleSend\<close> settles with an Error, one
  request has been issued, the cache and the timers are as the passage of time alone
  would have left them, and the conversation has grown by the user's message and a bot
  message with exactly the fixed string.
\<close>

theorem failure_surfaces_fallback:
  "(messageCache st (cacheKey systemPrompt msg) = None \<and> throws outcome = Some e \<longrightarrow>
      sendMessage msg systemPrompt (Settles d outcome) st =
        (Some (Inl e),
         (advance (clock st + d) st)\<lparr>requests := requests st @ [chat_request systemPrompt msg]\<rparr>)) \<and>
   (trim txt \<noteq> [] \<and> messageCache st (cacheKey [] txt) = None \<and> send_fails nw \<longrightarrow>
      isl (fst (awaitRace txt nw (setIsLoading True (addMessage (Str txt) True st)))) \<and>
      requests (handleSend txt nw st) = requests st @ [chat_request [] txt] \<and>
      messageCache (handleSend txt nw st) = messageCache (advance (clock st + settle_delay nw) st) \<and>
      timers (handleSend txt nw st) = timers (advance (clock st + settle_delay nw) st) \<and>
      messages (handleSend txt nw st) =
        messages st @
          [\<lparr>content = Str txt, isUser = True, timestamp = clock st\<rparr>,
           \<lparr>content = Str ''Sorry, there was an error processing your request.'',
            isUser = False, timestamp = clock st + settle_delay nw\<rparr>])"
proof (intro conjI impI; (elim conjE)?)
  assume "messageCache st (cacheKey systemPrompt msg) = None" and "throws outcome = Some e"
  then show "sendMessage msg systemPrompt (Settles d outcome) st =
        (Some (Inl e),
         (advance (clock st + d) st)\<lparr>requests := requests st @ [chat_request systemPrompt msg]\<rparr>)"
    by (simp add: sendMessage_miss finish_throws advance_frame)
next
  let ?st0 = "setIsLoading True (addMessage (Str txt) True st)"
  assume nonblank: "trim txt \<noteq> []"
    and miss: "messageCache st (cacheKey [] txt) = None"
    and fails: "send_fails nw"
  have miss0: "messageCache ?st0 (cacheKey [] txt) = None"
    using miss by (simp add: setIsLoading_def addMessage_def)
  from fails show "isl (fst (awaitRace txt nw ?st0))"
  proof (cases rule: send_fails_cases)
    case (fails d outcome e)
    with miss0 show ?thesis
      by (simp add: awaitRace_def sendMessage_begin_def finish_throws)
  next
    case timeout
    then show ?thesis
      by (simp add: awaitRace_timeout(1) [OF miss0])
  qed
  from fails show "requests (handleSend txt nw st) = requests st @ [chat_request [] txt]"
  proof (cases rule: send_fails_cases)
    case (fails d outcome e)
    with nonblank miss show ?thesis
      by (simp add: handleSend_failure)
  next
    case timeout
    with nonblank miss show ?thesis
      by (simp add: handleSend_timeout)
  qed
  from fails show "messageCache (handleSend txt nw st) = messageCache (advance (clock st + settle_delay nw) st)"
  proof (cases rule: send_fails_cases)
    case (fails d outcome e)
    with nonblank miss show ?thesis
      by (simp add: handleSend_failure settle_delay_def)
  next
    case timeout
    with nonblank miss show ?thesis
      by (cases nw) (simp_all add: handleSend_timeout settle_delay_def timer_wins_def min_absorb2)
  qed
  from fails show "timers (handleSend txt nw st) = timers (advance (clock st + settle_delay nw) st)"
  proof (cases rule: send_fails_cases)
    case (fails d outcome e)
    with nonblank miss show ?thesis
      by (simp add: handleSend_failure settle_delay_def)
  next
    case timeout
    with nonblank miss show ?thesis
      by (cases nw) (simp_all add: handleSend_timeout settle_delay_def timer_wins_def min_absorb2)
  qed
  from fails show "messages (handleSend txt nw st) =
        messages st @
          [\<lparr>content = Str txt, isUser = True, timestamp = clock st\<rparr>,
           \<lparr>content = Str ''Sorry, there was an error processing your request.'',
            isUser = False, timestamp = clock st + settle_delay nw\<rparr>]"
  proof (cases rule: send_fails_cases)
    case (fails d outcome e)
    with nonblank miss show ?thesis
      by (simp add: handleSend_failure settle_delay_def fallback_def)
  next
    case timeout
    with nonblank miss show ?thesis
      by (cases nw) (simp_all add: handleSend_timeout settle_delay_def timer_wins_def min_absorb2 fallback_def)
  qed
qed

theorem failure_surfaces_fallback_witness:
  "messageCache init (cacheKey ''Be brief.'' ''Hello'') = None \<and>
   throws (Fulfilled (Obj [(''error'', Str ''overloaded'')])) = Some TypeError \<and>
   fst (sendMessage ''Hello'' ''Be brief.'' (Settles 800 (Fulfilled (Obj [(''error'', Str ''overloaded'')]))) init)
     = Some (Inl TypeError) \<and>
   messageCache (snd (sendMessage ''Hello'' ''Be brief.'' (Settles 800 (Fulfilled (Obj [(''error'', Str ''overloaded'')]))) init))
     = Map.empty \<and>
   trim ''Hello'' \<noteq> [] \<and>
   messageCache init (cacheKey [] ''Hello'') = None \<and>
   send_fails (Settles 800 (Rejected (BadStatus 500))) \<and>
   requests (handleSend ''Hello'' (Settles 800 (Rejected (BadStatus 500))) init) = [chat_request [] ''Hello''] \<and>
   messageCache (handleSend ''Hello'' (Settles 800 (Rejected (BadStatus 500))) init) = Map.empty \<and>
   messages (handleSend ''Hello'' (Settles 800 (Rejected (BadStatus 500))) init) =
     [\<lparr>content = Str ''Hello'', isUser = True, timestamp = 0\<rparr>,
      \<lparr>content = Str ''Sorry, there was an error processing your request.'',
       isUser = False, timestamp = 800\<rparr>] \<and>
   send_fails (Settles 15000 (Fulfilled (completion ''Hi there!''))) \<and>
   requests (handleSend ''Hello'' (Settles 15000 (Fulfilled (completion ''Hi there!''))) init)
     = [chat_request [] ''Hello''] \<and>
   messageCache (handleSend ''Hello'' (Settles 15000 (Fulfilled (completion ''Hi there!''))) init) = Map.empty \<and>
   messages (handleSend ''Hello'' (Settles 15000 (Fulfilled (completion ''Hi there!''))) init) =
     [\<lparr>content = Str ''Hello'', isUser = True, timestamp = 0\<rparr>,
      \<lparr>content = Str ''Sorry, there was an error processing your request.'',
       isUser = False, timestamp = 15000\<rparr>]"
proof -
  have i: "messageCache init = Map.empty" "clock init = 0" "requests init = []" "messages init = []"
    "messageCache (advance 800 init) = Map.empty" "messageCache (advance 15000 init) = Map.empty"
    by (simp_all add: init_def advance_def tick_def)
  have h5: "send_fails (Settles 15000 (Fulfilled (completion ''Hi there!'')))"
    by (simp add: send_fails_def race_timeout_def)
  have h6: "settle_delay (Settles 15000 (Fulfilled (completion ''Hi there!''))) = 15000"
    by (simp add: settle_delay_def race_timeout_def)
  have h1: "throws (Fulfilled (Obj [(''error'', Str ''overloaded'')])) = Some TypeError"
    by (simp add: throws_def completion_text_def)
  have h2: "trim ''Hello'' \<noteq> []"
    by (simp add: trim_def whitespace_def)
  have h3: "send_fails (Settles 800 (Rejected (BadStatus 500)))"
    by (simp add: send_fails_def throws_def race_timeout_def)
  have h4: "settle_delay (Settles 800 (Rejected (BadStatus 500))) = 800"
    by (simp add: settle_delay_def race_timeout_def)
  show ?thesis
    using h1 h2 h3 h5
      failure_surfaces_fallback
        [of init "''Be brief.''" "''Hello''" "Fulfilled (Obj [(''error'', Str ''overloaded'')])"
            TypeError 800 "''Hello''" "Settles 800 (Rejected (BadStatus 500))"]
      failure_surfaces_fallback
        [of init "[]" "[]" "Rejected NetworkError" NetworkError 0
            "''Hello''" "Settles 15000 (Fulfilled (completion ''Hi there!''))"]
    by (simp add: i h4 h6)
qed

subsection \<open>Calls that outlive the race\<close>

lemma same_at_finish:
  assumes "same_at key a b" and "clock a = clock b"
  shows "same_at key (snd (sendMessage_finish key outcome a)) (snd (sendMessage_finish key outcome b))"
  using assms
  by (simp add: sendMessage_finish_def same_at_def timers_of_def
        split: transport_result.split sum.split)

lemma sorted_split_around:
  fixes x :: "nat \<times> string \<times> transport_result"
  assumes "x \<notin> set xs"
  obtains ys zs where "sort_key fst (xs @ [x]) = ys @ x # zs"
    and "set ys \<subseteq> set xs" and "set zs \<subseteq> set xs"
    and "\<forall>y\<in>set ys. fst y \<le> fst x"
proof -
  let ?l = "sort_key fst (xs @ [x])"
  have "x \<in> set ?l" by simp
  then obtain ys zs where l: "?l = ys @ x # zs"
    using split_list [of x ?l] by blast
  have "filter (\<lambda>y. y = x) ?l = sort_key fst (filter (\<lambda>y. y = x) (xs @ [x]))"
    by (simp only: filter_sort)
  also have "filter (\<lambda>y. y = x) (xs @ [x]) = [x]"
    using assms by (auto simp: filter_empty_conv)
  finally have "filter (\<lambda>y. y = x) (ys @ x # zs) = [x]"
    by (simp add: l)
  then have nx: "x \<notin> set ys" "x \<notin> set zs"
    by (auto simp: filter_empty_conv append_eq_Cons_conv)
  have "set ?l = insert x (set xs)"
    by simp
  with l nx have sub: "set ys \<subseteq> set xs" "set zs \<subseteq> set xs"
    by auto
  have "sorted (map fst ?l)"
    by (rule sorted_sort_key)
  then have "\<forall>y\<in>set ys. fst y \<le> fst x"
    by (auto simp: l sorted_append)
  with l sub show ?thesis
    by (rule that)
qed

lemma handleSend_hit:
  assumes "trim txt \<noteq> []"
    and "messageCache st (cacheKey [] txt) = Some v"
  shows "handleSend txt nw st =
           st\<lparr>messages := messages st @
                 [\<lparr>content = Str txt, isUser = True, timestamp = clock st\<rparr>,
                  \<lparr>content = v, isUser = False, timestamp = clock st\<rparr>],
              isLoading := False\<rparr>"
  using assms
  by (simp add: handleSend_def awaitRace_def sendMessage_begin_def setIsLoading_def addMessage_def)

subsection \<open>Sends that never overlap\<close>

text \<open>
  When every call of \<^verbatim>\<open>sendMessage\<close> is awaited before the next one starts, no timer
  of an earlier store is pending for a key that misses the cache, and no call is in
  flight: the provisos on stale timers and on other calls in flight then hold by
  themselves.
\<close>

lemma settled_init: "settled init"
  by (simp add: settled_def init_def)

lemma settled_tick:
  assumes "settled st"
  shows "settled (tick t st)"
proof -
  have d: "distinct (map snd (timers st))"
    and c: "snd ` set (timers st) \<subseteq> dom (messageCache st)"
    using assms by (simp_all add: settled_def)
  from d have inj: "inj_on snd (set (timers st))"
    by (simp add: distinct_map)
  have "messageCache (tick t st) k \<noteq> None" if "(e, k) \<in> set (timers st)" "t < e" for e k
  proof -
    have "e' = e" if "(e', k) \<in> set (timers st)" for e'
      using inj_onD [OF inj, of "(e', k)" "(e, k)"] that \<open>(e, k) \<in> set (timers st)\<close> by simp
    moreover have "messageCache st k \<noteq> None"
      using c \<open>(e, k) \<in> set (timers st)\<close> by force
    ultimately show ?thesis
      using \<open>t < e\<close> by (auto simp: tick_cache)
  qed
  then have "snd ` set (timers (tick t st)) \<subseteq> dom (messageCache (tick t st))"
    by (force simp: dom_def)
  moreover have "distinct (map snd (timers (tick t st)))"
    using d by (simp add: distinct_map_filter)
  moreover have "abandoned (tick t st) = []"
    using assms by (simp add: settled_def)
  ultimately show ?thesis
    unfolding settled_def by blast
qed

lemma advance_no_abandoned:
  assumes "abandoned st = []"
  shows "advance t st = tick t st"
proof -
  have e: "st\<lparr>abandoned := []\<rparr> = st"
    using assms by (cases st) simp
  show ?thesis
    by (simp add: advance_def assms e)
qed

lemma settled_advance:
  assumes "settled st"
  shows "settled (advance t st)"
proof -
  have "abandoned st = []"
    using assms by (simp add: settled_def)
  then have "advance t st = tick t st"
    by (rule advance_no_abandoned)
  with assms show ?thesis
    by (simp add: settled_tick)
qed

lemma settled_requests: "settled (st\<lparr>requests := r\<rparr>) = settled st"
  by (simp add: settled_def)

lemma settled_finish:
  assumes "settled st" and "messageCache st key = None"
  shows "settled (snd (sendMessage_finish key outcome st))"
proof -
  have "key \<notin> snd ` set (timers st)"
    using assms by (auto simp: settled_def)
  with assms(1) show ?thesis
    by (auto simp: settled_def sendMessage_finish_def split: transport_result.split sum.split)
qed

lemma settled_sendMessage:
  assumes "settled st"
  shows "settled (snd (sendMessage msg systemPrompt nw st))"
proof (cases "messageCache st (cacheKey systemPrompt msg)")
  case (Some v)
  with assms show ?thesis
    by (simp add: sendMessage_hit)
next
  case None
  show ?thesis
  proof (cases nw)
    case Never
    with None assms show ?thesis
      by (simp add: sendMessage_never settled_requests)
  next
    case (Settles d outcome)
    let ?st1 = "advance (clock st + d) (st\<lparr>requests := requests st @ [chat_request systemPrompt msg]\<rparr>)"
    have "settled ?st1"
      using assms by (simp add: settled_advance settled_requests)
    moreover have "messageCache ?st1 (cacheKey systemPrompt msg) = None"
      using None assms by (simp add: advance_no_abandoned settled_def tick_cache)
    ultimately show ?thesis
      using None Settles by (simp add: sendMessage_miss settled_finish)
  qed
qed

lemma settled_miss_no_stale_timer:
  assumes "settled st" and "messageCache st key = None"
  shows "abandoned st = []" and "\<forall>x\<in>set (timers st). snd x \<noteq> key"
  using assms by (auto simp: settled_def)

subsection \<open>When line 72 throws\<close>

text \<open>
  Line 72 throws exactly when the response body, its \<^verbatim>\<open>choices\<close>, the first choice
  or the \<^verbatim>\<open>message\<close> of the first choice is \<^verbatim>\<open>undefined\<close> or \<^verbatim>\<open>null\<close>, and what it
  throws is a TypeError. A \<^verbatim>\<open>message\<close> that lacks \<^verbatim>\<open>content\<close> does not make it throw.
\<close>

lemma get_prop_Inl: "get_prop name v = Inl e \<longleftrightarrow> nullish v \<and> e = TypeError"
  by (cases v) (auto simp: nullish_def)

lemma index0_Inl: "index0 v = Inl e \<longleftrightarrow> nullish v \<and> e = TypeError"
  by (cases v) (auto simp: nullish_def)

lemma get_prop_Inr: "get_prop name v = Inr x \<Longrightarrow> \<not> nullish v"
  by (cases v) (auto simp: nullish_def)

lemma index0_Inr: "index0 v = Inr x \<Longrightarrow> \<not> nullish v"
  by (cases v) (auto simp: nullish_def)

lemma completion_text_Inl:
  "completion_text data = Inl e \<longleftrightarrow>
     e = TypeError \<and>
     (nullish data \<or>
      (\<exists>choices. get_prop ''choices'' data = Inr choices \<and>
         (nullish choices \<or>
          (\<exists>choice. index0 choices = Inr choice \<and>
             (nullish choice \<or>
              (\<exists>msg. get_prop ''message'' choice = Inr msg \<and> nullish msg))))))"
  by (auto simp: completion_text_def get_prop_Inl index0_Inl split: sum.splits
        dest: get_prop_Inr index0_Inr)

subsection \<open>Expiry while calls are in flight\<close>








lemma handleSend_Hello_from_init:
  assumes "timer_wins (Settles d outcome)"
  shows "handleSend ''Hello'' (Settles d outcome) init =
           \<lparr>messageCache = Map.empty, timers = [],
            abandoned = [(d, cacheKey [] ''Hello'', outcome)], clock = 15000,
            requests = [chat_request [] ''Hello''],
            messages = [\<lparr>content = Str ''Hello'', isUser = True, timestamp = 0\<rparr>,
                        \<lparr>content = Str fallback, isUser = False, timestamp = 15000\<rparr>],
            isLoading = False\<rparr>"
proof -
  have "trim ''Hello'' \<noteq> []"
    by (simp add: trim_def whitespace_def)
  moreover have "messageCache init (cacheKey [] ''Hello'') = None"
    by (simp add: init_def)
  ultimately show ?thesis
    using assms
    by (simp add: handleSend_timeout init_def advance_def tick_def race_timeout_def)
qed




subsection \<open>A call that outlives the race, among others\<close>

lemma same_at_deliver_harmless:
  assumes "\<not> stores_under key x"
  shows "same_at key (deliver st x) (tick (fst x) st)"
proof (cases "fst (snd x) = key")
  case False
  then show ?thesis by (rule same_at_deliver)
next
  case True
  with assms obtain e where "throws (snd (snd x)) = Some e"
    by (auto simp: stores_under_def)
  then have "deliver st x = tick (fst x) st"
    by (cases x) (simp add: deliver_def finish_throws)
  then show ?thesis by simp
qed

lemma same_at_foldl_harmless:
  "\<forall>x\<in>set xs. fst x \<le> t \<and> \<not> stores_under key x \<Longrightarrow>
   same_at key (tick t (foldl deliver st xs)) (tick t st)"
proof (induction xs arbitrary: st)
  case Nil
  show ?case by simp
next
  case (Cons x xs)
  have "same_at key (tick t (foldl deliver (deliver st x) xs)) (tick t (deliver st x))"
    using Cons.prems by (intro Cons.IH) simp
  moreover have "same_at key (tick t (deliver st x)) (tick t (tick (fst x) st))"
    using Cons.prems by (intro same_at_tick same_at_deliver_harmless) simp
  moreover have "tick t (tick (fst x) st) = tick t st"
    using Cons.prems by (intro tick_tick) simp
  ultimately show ?case
    by (auto intro: same_at_trans)
qed

lemma same_at_advance_harmless:
  assumes "\<forall>x\<in>set (abandoned st). stores_under key x \<longrightarrow> t < fst x"
  shows "same_at key (advance t st) (tick t st)"
proof -
  let ?st = "st\<lparr>abandoned := filter (\<lambda>(a, k, outcome). t < a) (abandoned st)\<rparr>"
  let ?due = "sort_key fst (filter (\<lambda>(a, k, outcome). a \<le> t) (abandoned st))"
  have "same_at key (tick t (foldl deliver ?st ?due)) (tick t ?st)"
    using assms by (intro same_at_foldl_harmless) (auto simp: not_less)
  moreover have "same_at key (tick t ?st) (tick t st)"
    by (intro same_at_tick) (simp add: same_at_def timers_of_def)
  ultimately show ?thesis
    unfolding advance_def by (rule same_at_trans)
qed

lemma advance_timers_mem_harmless:
  assumes "\<forall>x\<in>set (abandoned st). stores_under key x \<longrightarrow> t < fst x"
  shows "(d, key) \<in> set (timers (advance t st)) \<longleftrightarrow> (d, key) \<in> set (timers st) \<and> t < d"
proof -
  have "timers_of key (advance t st) = filter (\<lambda>(d, k). t < d) (timers_of key st)"
    using same_at_advance_harmless [OF assms] by (simp add: same_at_def timers_of_tick)
  then have "(d, key) \<in> set (timers_of key (advance t st)) \<longleftrightarrow> (d, key) \<in> set (timers_of key st) \<and> t < d"
    by auto
  then show ?thesis
    by (simp add: timers_of_mem)
qed

lemma insort_key_snoc:
  "f y \<le> f x \<Longrightarrow> insort_key f y (xs @ [x]) = insort_key f y xs @ [x]"
  by (induction xs) simp_all

lemma sort_key_snoc:
  "\<forall>y\<in>set xs. f y \<le> f x \<Longrightarrow> sort_key f (xs @ [x]) = sort_key f xs @ [x]"
  by (induction xs) (simp_all add: insort_key_snoc)

lemma store_survives_tick:
  assumes "completion_text data = Inr v"
  shows "messageCache (tick a (snd (sendMessage_finish key (Fulfilled data) (tick a st)))) key = Some v"
proof -
  let ?B = "snd (sendMessage_finish key (Fulfilled data) (tick a st))"
  have B: "?B = (tick a st)\<lparr>messageCache := (messageCache (tick a st))(key \<mapsto> v),
                           timers := timers (tick a st) @ [(clock (tick a st) + ttl, key)]\<rparr>"
    using assms by (simp add: finish_stores)
  have "a < e" if "(e, key) \<in> set (timers ?B)" for e
    using that by (auto simp: B ttl_def)
  then have none: "\<not> (\<exists>e. (e, key) \<in> set (timers ?B) \<and> e \<le> a)"
    by (auto simp: not_le)
  have "messageCache ?B key = Some v"
    by (simp add: B)
  with none show ?thesis
    by (simp only: tick_cache if_False)
qed

lemma advance_arrival:
  assumes ab: "abandoned st = xs @ [(a, key, Fulfilled data)]"
    and ok: "completion_text data = Inr v"
  shows "messageCache (advance a st) key = Some v"
proof -
  let ?x = "(a, key, Fulfilled data)"
  let ?st = "st\<lparr>abandoned := filter (\<lambda>(b, k, outcome). a < b) (abandoned st)\<rparr>"
  let ?F = "filter (\<lambda>(b, k, outcome). b \<le> a) xs"
  let ?S = "foldl deliver ?st (sort_key fst ?F)"
  have "filter (\<lambda>(b, k, outcome). b \<le> a) (abandoned st) = ?F @ [?x]"
    by (simp add: ab)
  moreover have "sort_key fst (?F @ [?x]) = sort_key fst ?F @ [?x]"
    by (rule sort_key_snoc) auto
  ultimately have adv: "advance a st = tick a (deliver ?S ?x)"
    by (simp add: advance_def)
  show ?thesis
    using ok by (simp add: adv deliver_def store_survives_tick)
qed

lemma advance_delivers_harmless:
  assumes ab: "abandoned st = xs @ [(a, key, outcome)]"
    and stores: "throws outcome = None"
    and others: "\<forall>y\<in>set xs. stores_under key y \<longrightarrow> t < fst y"
    and clk: "clock st \<le> a"
    and at: "a \<le> t"
  shows "same_at key (advance t st) (tick t (snd (sendMessage_finish key outcome (tick a st))))"
proof -
  let ?x = "(a, key, outcome)"
  let ?st = "st\<lparr>abandoned := filter (\<lambda>(a, k, outcome). t < a) (abandoned st)\<rparr>"
  let ?F = "filter (\<lambda>(a, k, outcome). a \<le> t) xs"
  have due: "filter (\<lambda>(a, k, outcome). a \<le> t) (abandoned st) = ?F @ [?x]"
    using at by (simp add: ab)
  have harmless: "\<forall>y\<in>set ?F. \<not> stores_under key y"
    using others by (auto simp: not_less)
  have "stores_under key ?x"
    using stores by (simp add: stores_under_def)
  with harmless have "?x \<notin> set ?F"
    by blast
  then obtain ys zs where l: "sort_key fst (?F @ [?x]) = ys @ ?x # zs"
    and ys: "set ys \<subseteq> set ?F" and zs: "set zs \<subseteq> set ?F"
    and before: "\<forall>y\<in>set ys. fst y \<le> fst ?x"
    by (rule sorted_split_around)
  let ?S = "foldl deliver ?st ys"
  have ys_ok: "\<forall>y\<in>set ys. fst y \<le> a \<and> \<not> stores_under key y"
    using ys before harmless by auto
  have zs_ok: "\<forall>y\<in>set zs. fst y \<le> t \<and> \<not> stores_under key y"
    using zs harmless by auto
  have adv: "advance t st = tick t (foldl deliver (deliver ?S ?x) zs)"
    by (simp add: advance_def due l)
  have 1: "same_at key (tick t (foldl deliver (deliver ?S ?x) zs)) (tick t (deliver ?S ?x))"
    using zs_ok by (rule same_at_foldl_harmless)
  have "same_at key (tick a ?S) (tick a ?st)"
    using ys_ok by (rule same_at_foldl_harmless)
  moreover have "same_at key (tick a ?st) (tick a st)"
    by (intro same_at_tick) (simp add: same_at_def timers_of_def)
  ultimately have 2: "same_at key (tick a ?S) (tick a st)"
    by (rule same_at_trans)
  have "clock ?S \<le> a"
    using clk ys_ok by (intro foldl_deliver_clock) simp_all
  then have 3: "clock (tick a ?S) = clock (tick a st)"
    using clk by simp
  have "deliver ?S ?x = snd (sendMessage_finish key outcome (tick a ?S))"
    by (simp add: deliver_def)
  moreover have "same_at key (snd (sendMessage_finish key outcome (tick a ?S)))
                   (snd (sendMessage_finish key outcome (tick a st)))"
    using 2 3 by (rule same_at_finish)
  ultimately have "same_at key (deliver ?S ?x) (snd (sendMessage_finish key outcome (tick a st)))"
    by simp
  then have "same_at key (tick t (deliver ?S ?x)) (tick t (snd (sendMessage_finish key outcome (tick a st))))"
    by (rule same_at_tick)
  with 1 show ?thesis
    unfolding adv by (rule same_at_trans)
qed

lemma trim_Hello: "trim ''Hello'' \<noteq> []"
  by (simp add: trim_def whitespace_def)

lemma stale_timer_pending_eq:
  "stale_timer_pending =
     \<lparr>messageCache = Map.empty,
      timers = [(340000, cacheKey [] ''Hello'')],
      abandoned = [], clock = 316000,
      requests = [chat_request [] ''Hello'', chat_request [] ''Hello''],
      messages = [\<lparr>content = Str ''Hello'', isUser = True, timestamp = 0\<rparr>,
                  \<lparr>content = Str fallback, isUser = False, timestamp = 15000\<rparr>,
                  \<lparr>content = Str ''Hello'', isUser = True, timestamp = 15000\<rparr>,
                  \<lparr>content = Str ''quick'', isUser = False, timestamp = 16000\<rparr>],
      isLoading = False\<rparr>"
proof -
  have "timer_wins (Settles 40000 (Fulfilled (completion ''slow'')))"
    by (simp add: timer_wins_def race_timeout_def)
  then show ?thesis
    unfolding stale_timer_pending_def
    by (simp add: handleSend_Hello_from_init)
       (simp add: handleSend_def awaitRace_def sendMessage_begin_def finish_stores trim_Hello
          setIsLoading_def addMessage_def race_timeout_def advance_def tick_def deliver_def
          ttl_def fun_eq_iff)
qed

text \<open>
  C10 as stated does not hold when a stale timer is pending. In the conversation
  above a third send of \<^verbatim>\<open>Hello\<close> at 316000 ms misses the cache and loses the race at
  331000 ms; its response arrives at 332000 ms and the completion is stored. The timer
  left by the first send deletes it at 340000 ms, so the identical send at 341000 ms,
  9 seconds after the completion was stored, misses the cache and issues a request.
\<close>

theorem abandoned_call_counterexample:
  "messageCache stale_timer_pending (cacheKey [] ''Hello'') = None \<and>
   content (last (messages (handleSend ''Hello'' (Settles 16000 (Fulfilled (completion ''done'')))
                              stale_timer_pending)))
     = Str ''Sorry, there was an error processing your request.'' \<and>
   messageCache
     (advance 332000 (handleSend ''Hello'' (Settles 16000 (Fulfilled (completion ''done'')))
                        stale_timer_pending))
     (cacheKey [] ''Hello'') = Some (Str ''done'') \<and>
   (341000 :: nat) < 332000 + ttl \<and>
   messageCache
     (advance 341000 (handleSend ''Hello'' (Settles 16000 (Fulfilled (completion ''done'')))
                        stale_timer_pending))
     (cacheKey [] ''Hello'') = None \<and>
   length (requests
     (handleSend ''Hello'' Never
        (advance 341000 (handleSend ''Hello'' (Settles 16000 (Fulfilled (completion ''done'')))
                           stale_timer_pending))))
     = length (requests (handleSend ''Hello'' (Settles 16000 (Fulfilled (completion ''done'')))
                           stale_timer_pending)) + 1"
proof -
  let ?nw = "Settles 16000 (Fulfilled (completion ''done''))"
  have miss: "messageCache stale_timer_pending (cacheKey [] ''Hello'') = None"
    by (simp add: stale_timer_pending_eq)
  have wins: "timer_wins ?nw"
    by (simp add: timer_wins_def race_timeout_def)
  have st: "handleSend ''Hello'' ?nw stale_timer_pending =
     \<lparr>messageCache = Map.empty,
      timers = [(340000, cacheKey [] ''Hello'')],
      abandoned = [(332000, cacheKey [] ''Hello'', Fulfilled (completion ''done''))],
      clock = 331000,
      requests = [chat_request [] ''Hello'', chat_request [] ''Hello'', chat_request [] ''Hello''],
      messages = [\<lparr>content = Str ''Hello'', isUser = True, timestamp = 0\<rparr>,
                  \<lparr>content = Str fallback, isUser = False, timestamp = 15000\<rparr>,
                  \<lparr>content = Str ''Hello'', isUser = True, timestamp = 15000\<rparr>,
                  \<lparr>content = Str ''quick'', isUser = False, timestamp = 16000\<rparr>,
                  \<lparr>content = Str ''Hello'', isUser = True, timestamp = 316000\<rparr>,
                  \<lparr>content = Str fallback, isUser = False, timestamp = 331000\<rparr>],
      isLoading = False\<rparr>"
    unfolding handleSend_timeout [OF trim_Hello miss wins]
    by (simp add: stale_timer_pending_eq advance_def tick_def race_timeout_def)
  have a1: "messageCache (advance 332000 (handleSend ''Hello'' ?nw stale_timer_pending))
              (cacheKey [] ''Hello'') = Some (Str ''done'')"
    by (simp add: st advance_def tick_def deliver_def finish_stores ttl_def)
  have a2: "advance 341000 (handleSend ''Hello'' ?nw stale_timer_pending) =
     \<lparr>messageCache = Map.empty,
      timers = [(632000, cacheKey [] ''Hello'')],
      abandoned = [],
      clock = 341000,
      requests = [chat_request [] ''Hello'', chat_request [] ''Hello'', chat_request [] ''Hello''],
      messages = [\<lparr>content = Str ''Hello'', isUser = True, timestamp = 0\<rparr>,
                  \<lparr>content = Str fallback, isUser = False, timestamp = 15000\<rparr>,
                  \<lparr>content = Str ''Hello'', isUser = True, timestamp = 15000\<rparr>,
                  \<lparr>content = Str ''quick'', isUser = False, timestamp = 16000\<rparr>,
                  \<lparr>content = Str ''Hello'', isUser = True, timestamp = 316000\<rparr>,
                  \<lparr>content = Str fallback, isUser = False, timestamp = 331000\<rparr>],
      isLoading = False\<rparr>"
    by (simp add: st advance_def tick_def deliver_def finish_stores ttl_def fun_eq_iff)
  have miss2: "messageCache (advance 341000 (handleSend ''Hello'' ?nw stale_timer_pending))
                 (cacheKey [] ''Hello'') = None"
    by (simp add: a2)
  have again: "length (requests (handleSend ''Hello'' Never
                  (advance 341000 (handleSend ''Hello'' ?nw stale_timer_pending)))) = 4"
    unfolding handleSend_timeout [OF trim_Hello miss2, of Never, unfolded timer_wins_def, simplified]
    by (simp add: st)
  have r3: "length (requests (handleSend ''Hello'' ?nw stale_timer_pending)) = 3"
    and m3: "content (last (messages (handleSend ''Hello'' ?nw stale_timer_pending)))
               = Str ''Sorry, there was an error processing your request.''"
    by (simp_all add: st fallback_def)
  have "(341000 :: nat) < 332000 + ttl"
    by (simp add: ttl_def)
  with miss m3 a1 miss2 again r3 show ?thesis
    by simp
qed

text \<open>
  C10, amended. A send misses the cache and the timer wins the race: the conversation
  receives the fallback message. The call of \<^verbatim>\<open>sendMessage\<close> is still in flight; when
  its response arrives with a completion, the completion is stored in the cache,
  whatever else is pending. An identical send made at a time \<open>t\<close> after that arrival
  and less than 5 minutes after it is served from the cache (the requests issued are
  still only the one of the first send, and the conversation receives the completion),
  provided that no removal timer pending for the key when the first send starts is due
  between the arrival and \<open>t\<close>, and no other call in flight for the key stores a
  completion by \<open>t\<close>.
\<close>

theorem abandoned_call_still_fills_cache:
  assumes "trim txt \<noteq> []"
    and "messageCache st (cacheKey [] txt) = None"
    and "15000 \<le> d"
    and "completion_text data = Inr v"
  shows "messages (handleSend txt (Settles d (Fulfilled data)) st) =
           messages st @
             [\<lparr>content = Str txt, isUser = True, timestamp = clock st\<rparr>,
              \<lparr>content = Str ''Sorry, there was an error processing your request.'',
               isUser = False, timestamp = clock st + 15000\<rparr>] \<and>
         messageCache (advance (clock st + d) (handleSend txt (Settles d (Fulfilled data)) st))
           (cacheKey [] txt) = Some v \<and>
         (\<forall>t nw.
            clock st + d \<le> t \<and> t < clock st + d + 300000 \<and>
            (\<forall>x\<in>set (timers st). snd x = cacheKey [] txt \<longrightarrow> fst x \<le> clock st + d \<or> t < fst x) \<and>
            (\<forall>x\<in>set (abandoned st).
               fst (snd x) = cacheKey [] txt \<and> throws (snd (snd x)) = None \<longrightarrow> t < fst x) \<longrightarrow>
            messageCache (advance t (handleSend txt (Settles d (Fulfilled data)) st)) (cacheKey [] txt) = Some v \<and>
            requests (handleSend txt nw (advance t (handleSend txt (Settles d (Fulfilled data)) st))) =
              requests st @ [chat_request [] txt] \<and>
            messages (handleSend txt nw (advance t (handleSend txt (Settles d (Fulfilled data)) st))) =
              messages (handleSend txt (Settles d (Fulfilled data)) st) @
                [\<lparr>content = Str txt, isUser = True, timestamp = t\<rparr>,
                 \<lparr>content = v, isUser = False, timestamp = t\<rparr>])"
proof (intro conjI allI impI; (elim conjE)?)
  let ?key = "cacheKey [] txt"
  let ?nw = "Settles d (Fulfilled data)"
  let ?st1 = "handleSend txt ?nw st"
  let ?T = "clock st + race_timeout"
  let ?a = "clock st + d"
  have wins: "timer_wins ?nw"
    using assms(3) by (simp add: timer_wins_def race_timeout_def)
  note st1 = handleSend_timeout [OF assms(1,2) wins]
  have ab1: "abandoned ?st1 = filter (\<lambda>(a, k, outcome). ?T < a) (abandoned st) @ [(?a, ?key, Fulfilled data)]"
    by (simp add: st1)
  have clk1: "clock ?st1 = ?T"
    by (simp add: st1)
  have clk: "clock ?st1 \<le> ?a"
    using assms(3) by (simp add: clk1 race_timeout_def)
  have r1: "requests ?st1 = requests st @ [chat_request [] txt]"
    by (simp add: st1)
  show m1: "messages ?st1 =
           messages st @
             [\<lparr>content = Str txt, isUser = True, timestamp = clock st\<rparr>,
              \<lparr>content = Str ''Sorry, there was an error processing your request.'',
               isUser = False, timestamp = clock st + 15000\<rparr>]"
    by (simp add: st1 fallback_def race_timeout_def)
  show "messageCache (advance ?a ?st1) ?key = Some v"
    using ab1 assms(4) by (rule advance_arrival)
  fix t nw
  assume t1: "?a \<le> t" and t2: "t < ?a + 300000"
    and stale: "\<forall>x\<in>set (timers st). snd x = ?key \<longrightarrow> fst x \<le> ?a \<or> t < fst x"
    and inflight: "\<forall>x\<in>set (abandoned st). fst (snd x) = ?key \<and> throws (snd (snd x)) = None \<longrightarrow> t < fst x"
  have ab_st: "\<forall>x\<in>set (abandoned st). stores_under ?key x \<longrightarrow> ?T < fst x"
    using inflight t1 assms(3) by (fastforce simp: stores_under_def race_timeout_def)
  have others: "\<forall>y\<in>set (filter (\<lambda>(a, k, outcome). ?T < a) (abandoned st)). stores_under ?key y \<longrightarrow> t < fst y"
    using inflight by (auto simp: stores_under_def)
  have tm1: "(e, ?key) \<in> set (timers ?st1) \<longleftrightarrow> (e, ?key) \<in> set (timers st) \<and> ?T < e" for e
    by (simp add: st1 advance_timers_mem_harmless [OF ab_st])
  have th: "throws (Fulfilled data) = None"
    using assms(4) by (simp add: throws_def)
  let ?B = "snd (sendMessage_finish ?key (Fulfilled data) (tick ?a ?st1))"
  have same: "same_at ?key (advance t ?st1) (tick t ?B)"
    using ab1 th others clk t1 by (rule advance_delivers_harmless)
  have B: "?B = (tick ?a ?st1)\<lparr>messageCache := (messageCache (tick ?a ?st1))(?key \<mapsto> v),
                               timers := timers (tick ?a ?st1) @ [(clock (tick ?a ?st1) + ttl, ?key)]\<rparr>"
    using assms(4) by (simp add: finish_stores)
  have clkB: "clock (tick ?a ?st1) = ?a"
    using clk by simp
  have tmB: "(e, ?key) \<in> set (timers ?B) \<longrightarrow> t < e" for e
    using t2 stale tm1 [of e] by (auto simp: B clkB ttl_def)
  have "messageCache (tick t ?B) ?key = Some v"
    using tmB by (auto simp: tick_cache not_le) (simp add: B)
  with same show cache: "messageCache (advance t ?st1) ?key = Some v"
    by (simp add: same_at_def)
  have "clock ?st1 \<le> t"
    using clk t1 by simp
  then have ct: "max (clock ?st1) t = t"
    by (simp add: max_absorb2)
  note again = handleSend_hit [OF assms(1) cache]
  show "requests (handleSend txt nw (advance t ?st1)) = requests st @ [chat_request [] txt]"
    by (simp add: again r1)
  show "messages (handleSend txt nw (advance t ?st1)) =
           messages ?st1 @
             [\<lparr>content = Str txt, isUser = True, timestamp = t\<rparr>,
              \<lparr>content = v, isUser = False, timestamp = t\<rparr>]"
    by (simp add: again ct)
qed

theorem abandoned_call_still_fills_cache_witness:
  "trim ''Hello'' \<noteq> [] \<and> messageCache init (cacheKey [] ''Hello'') = None \<and>
   completion_text (completion ''Hi there!'') = Inr (Str ''Hi there!'') \<and>
   timers init = [] \<and> abandoned init = [] \<and> clock init = 0 \<and>
   messages (handleSend ''Hello'' (Settles 20000 (Fulfilled (completion ''Hi there!''))) init) =
     [\<lparr>content = Str ''Hello'', isUser = True, timestamp = 0\<rparr>,
      \<lparr>content = Str ''Sorry, there was an error processing your request.'',
       isUser = False, timestamp = 15000\<rparr>] \<and>
   messageCache (advance 20000 (handleSend ''Hello'' (Settles 20000 (Fulfilled (completion ''Hi there!''))) init))
     (cacheKey [] ''Hello'') = Some (Str ''Hi there!'') \<and>
   messageCache (advance 60000 (handleSend ''Hello'' (Settles 20000 (Fulfilled (completion ''Hi there!''))) init))
     (cacheKey [] ''Hello'') = Some (Str ''Hi there!'') \<and>
   requests (handleSend ''Hello'' Never
       (advance 60000 (handleSend ''Hello'' (Settles 20000 (Fulfilled (completion ''Hi there!''))) init)))
     = [chat_request [] ''Hello''] \<and>
   messages (handleSend ''Hello'' Never
       (advance 60000 (handleSend ''Hello'' (Settles 20000 (Fulfilled (completion ''Hi there!''))) init)))
     = [\<lparr>content = Str ''Hello'', isUser = True, timestamp = 0\<rparr>,
        \<lparr>content = Str ''Sorry, there was an error processing your request.'',
         isUser = False, timestamp = 15000\<rparr>,
        \<lparr>content = Str ''Hello'', isUser = True, timestamp = 60000\<rparr>,
        \<lparr>content = Str ''Hi there!'', isUser = False, timestamp = 60000\<rparr>]"
proof -
  have h2: "messageCache init (cacheKey [] ''Hello'') = None"
    by (simp add: init_def)
  have h3: "(15000 :: nat) \<le> 20000"
    by simp
  have h4: "completion_text (completion ''Hi there!'') = Inr (Str ''Hi there!'')"
    by simp
  have i: "timers init = []" "abandoned init = []" "clock init = 0" "requests init = []" "messages init = []"
    by (simp_all add: init_def)
  note inst = abandoned_call_still_fills_cache [OF trim_Hello h2 h3 h4]
  have provisos: "clock init + 20000 \<le> 60000 \<and> 60000 < clock init + 20000 + 300000 \<and>
      (\<forall>x\<in>set (timers init). snd x = cacheKey [] ''Hello'' \<longrightarrow> fst x \<le> clock init + 20000 \<or> 60000 < fst x) \<and>
      (\<forall>x\<in>set (abandoned init).
         fst (snd x) = cacheKey [] ''Hello'' \<and> throws (snd (snd x)) = None \<longrightarrow> 60000 < fst x)"
    by (simp add: i)
  from inst have part1: "messages (handleSend ''Hello'' (Settles 20000 (Fulfilled (completion ''Hi there!''))) init) =
           messages init @
             [\<lparr>content = Str ''Hello'', isUser = True, timestamp = clock init\<rparr>,
              \<lparr>content = Str ''Sorry, there was an error processing your request.'',
               isUser = False, timestamp = clock init + 15000\<rparr>]"
    and part2: "messageCache (advance (clock init + 20000) (handleSend ''Hello'' (Settles 20000 (Fulfilled (completion ''Hi there!''))) init))
           (cacheKey [] ''Hello'') = Some (Str ''Hi there!'')"
    by blast+
  from inst provisos have part3:
    "messageCache (advance 60000 (handleSend ''Hello'' (Settles 20000 (Fulfilled (completion ''Hi there!''))) init))
       (cacheKey [] ''Hello'') = Some (Str ''Hi there!'') \<and>
     requests (handleSend ''Hello'' Never (advance 60000 (handleSend ''Hello'' (Settles 20000 (Fulfilled (completion ''Hi there!''))) init))) =
       requests init @ [chat_request [] ''Hello''] \<and>
     messages (handleSend ''Hello'' Never (advance 60000 (handleSend ''Hello'' (Settles 20000 (Fulfilled (completion ''Hi there!''))) init))) =
       messages (handleSend ''Hello'' (Settles 20000 (Fulfilled (completion ''Hi there!''))) init) @
         [\<lparr>content = Str ''Hello'', isUser = True, timestamp = 60000\<rparr>,
          \<lparr>content = Str ''Hi there!'', isUser = False, timestamp = 60000\<rparr>]"
    by blast
  show ?thesis
    using trim_Hello h2 h4 i(1-3) part1 part2 part3 by (simp add: i)
qed

end
